theory Spec2Isabelle
  imports Main "HOL-Library.AList"
begin

section \<open>JavaScript strings\<close>

text \<open>
  A JavaScript string is a sequence of UTF-16 code units.  The formatter depends on the
  difference between code units (what \<^verbatim>\<open>text.split('')\<close> and a regular expression
  without the \<^verbatim>\<open>u\<close> flag see) and code points (what \<^verbatim>\<open>Array.from(text)\<close> and
  \<^verbatim>\<open>String.fromCodePoint\<close> see), so a string is modelled as the list of its code units.
  A single "character" handed around by the source (\<^verbatim>\<open>char\<close>) is itself a string.
\<close>

type_synonym jsstring = "nat list"

definition js :: "string \<Rightarrow> jsstring" where
  \<comment> \<open>an ASCII literal of the source\<close>
  "js s = map of_char s"

definition wellFormedString :: "jsstring \<Rightarrow> bool" where
  "wellFormedString s = list_all (\<lambda>c. c < 0x10000) s"

definition fromCodePoint :: "nat \<Rightarrow> jsstring" where
  \<comment> \<open>\<^verbatim>\<open>String.fromCodePoint(cp)\<close>: one unit in the BMP, a surrogate pair above it\<close>
  "fromCodePoint cp =
     (if cp < 0x10000 then [cp]
      else [0xD800 + (cp - 0x10000) div 0x400, 0xDC00 + (cp - 0x10000) mod 0x400])"

definition isHighSurrogate :: "nat \<Rightarrow> bool" where
  "isHighSurrogate c = (0xD800 \<le> c \<and> c \<le> 0xDBFF)"

definition isLowSurrogate :: "nat \<Rightarrow> bool" where
  "isLowSurrogate c = (0xDC00 \<le> c \<and> c \<le> 0xDFFF)"

definition splitChars :: "jsstring \<Rightarrow> jsstring list" where
  \<comment> \<open>\<^verbatim>\<open>text.split('')\<close>: one element per UTF-16 code unit\<close>
  "splitChars text = map (\<lambda>c. [c]) text"

fun arrayFrom :: "jsstring \<Rightarrow> jsstring list" where
  \<comment> \<open>\<^verbatim>\<open>Array.from(text)\<close>: the string iterator, one element per code point; a surrogate
     that has no partner is an element of its own\<close>
  "arrayFrom [] = []"
| "arrayFrom [c] = [[c]]"
| "arrayFrom (c # d # cs) =
     (if isHighSurrogate c \<and> isLowSurrogate d then [c, d] # arrayFrom cs
      else [c] # arrayFrom (d # cs))"

definition joinEmpty :: "jsstring list \<Rightarrow> jsstring" where
  \<comment> \<open>\<^verbatim>\<open>.join('')\<close>\<close>
  "joinEmpty parts = concat parts"

fun joinWith :: "jsstring \<Rightarrow> jsstring list \<Rightarrow> jsstring" where
  \<comment> \<open>\<^verbatim>\<open>.join(sep)\<close>\<close>
  "joinWith sep [] = []"
| "joinWith sep [x] = x"
| "joinWith sep (x # y # ys) = x @ sep @ joinWith sep (y # ys)"

fun splitOn :: "nat \<Rightarrow> jsstring \<Rightarrow> jsstring list" where
  \<comment> \<open>\<^verbatim>\<open>.split(sep)\<close> for a separator of one code unit; the empty string gives one empty piece\<close>
  "splitOn sep [] = [[]]"
| "splitOn sep (c # cs) =
     (if c = sep then [] # splitOn sep cs
      else (case splitOn sep cs of [] \<Rightarrow> [[c]] | l # ls \<Rightarrow> (c # l) # ls))"

definition isWhiteSpace :: "nat \<Rightarrow> bool" where
  \<comment> \<open>the code units \<^verbatim>\<open>String.prototype.trim\<close> removes: WhiteSpace and LineTerminator\<close>
  "isWhiteSpace c =
     (c = 0x09 \<or> c = 0x0A \<or> c = 0x0B \<or> c = 0x0C \<or> c = 0x0D \<or> c = 0x20 \<or> c = 0xA0 \<or>
      c = 0x1680 \<or> (0x2000 \<le> c \<and> c \<le> 0x200A) \<or> c = 0x2028 \<or> c = 0x2029 \<or>
      c = 0x202F \<or> c = 0x205F \<or> c = 0x3000 \<or> c = 0xFEFF)"

definition trim :: "jsstring \<Rightarrow> jsstring" where
  "trim s = rev (dropWhile isWhiteSpace (rev (dropWhile isWhiteSpace s)))"

definition digitChar :: "nat \<Rightarrow> nat" where
  "digitChar d = 0x30 + d"

function decimal :: "nat \<Rightarrow> jsstring" where
  \<comment> \<open>the template literal's conversion of a non-negative integer to a string\<close>
  "decimal n = (if n < 10 then [digitChar n] else decimal (n div 10) @ [digitChar (n mod 10)])"
  by pat_completeness auto
termination
  by (relation "measure id") auto

declare decimal.simps [simp del]

definition jsTruthy :: "jsstring option \<Rightarrow> jsstring option" where
  \<comment> \<open>a property read used as a condition: \<^verbatim>\<open>undefined\<close> and the empty string are falsy\<close>
  "jsTruthy v = (case v of None \<Rightarrow> None | Some s \<Rightarrow> if s = [] then None else Some s)"

definition jsOr :: "jsstring option \<Rightarrow> jsstring \<Rightarrow> jsstring" where
  \<comment> \<open>\<^verbatim>\<open>a || b\<close> for a string or \<^verbatim>\<open>undefined\<close> on the left\<close>
  "jsOr a b = (case jsTruthy a of None \<Rightarrow> b | Some s \<Rightarrow> s)"

section \<open>The character tables\<close>

datatype UnicodeStyle =
    Bold | Italic | BoldItalic | SansNormal | BoldSans | ItalicSans | BoldItalicSans
  | Script | Monospace | Doublestruck
  | Underline | Strikethrough | BoldUnderline | BoldStrikethrough

type_synonym caseMap = "(jsstring \<times> jsstring) list"

record styleMap =
  upper :: caseMap
  lower :: caseMap
  digits :: "caseMap option"

definition reduceTable :: "(jsstring \<Rightarrow> nat \<Rightarrow> jsstring) \<Rightarrow> jsstring \<Rightarrow> caseMap" where
  \<comment> \<open>\<^verbatim>\<open>letters.split('').reduce((acc, char, i) => { acc[char] = f(char, i); return acc }, {})\<close>:
     the object as an association list in insertion order, a repeated key overwritten in place\<close>
  "reduceTable f letters =
     fold (\<lambda>(i, char) acc. AList.update char (f char i) acc) (enumerate 0 (splitChars letters)) []"

definition upperLetters :: jsstring where
  "upperLetters = js ''ABCDEFGHIJKLMNOPQRSTUVWXYZ''"

definition lowerLetters :: jsstring where
  "lowerLetters = js ''abcdefghijklmnopqrstuvwxyz''"

definition digitLetters :: jsstring where
  "digitLetters = js ''0123456789''"

definition offsetTable :: "nat \<Rightarrow> jsstring \<Rightarrow> caseMap" where
  \<comment> \<open>the tables whose body is \<^verbatim>\<open>acc[char] = String.fromCodePoint(base + i)\<close>\<close>
  "offsetTable base letters = reduceTable (\<lambda>char i. fromCodePoint (base + i)) letters"

definition italicLower :: caseMap where
  "italicLower =
     reduceTable (\<lambda>char i. if char = js ''h'' then [0x210E] else fromCodePoint (0x1D44E + i))
       lowerLetters"

definition scriptUpperSpecial :: caseMap where
  "scriptUpperSpecial =
     [(js ''B'', [0x212C]), (js ''E'', [0x2130]), (js ''F'', [0x2131]), (js ''H'', [0x210B]),
      (js ''I'', [0x2110]), (js ''L'', [0x2112]), (js ''M'', [0x2133]), (js ''R'', [0x211B]),
      (js ''e'', [0x212F]), (js ''g'', [0x210A]), (js ''o'', [0x2134])]"

definition scriptLowerSpecial :: caseMap where
  "scriptLowerSpecial = [(js ''e'', [0x212F]), (js ''g'', [0x210A]), (js ''o'', [0x2134])]"

definition doublestruckUpperSpecial :: caseMap where
  "doublestruckUpperSpecial =
     [(js ''C'', [0x2102]), (js ''H'', [0x210D]), (js ''N'', [0x2115]), (js ''P'', [0x2119]),
      (js ''Q'', [0x211A]), (js ''R'', [0x211D]), (js ''Z'', [0x2124])]"

definition specialTable :: "caseMap \<Rightarrow> nat \<Rightarrow> jsstring \<Rightarrow> caseMap" where
  \<comment> \<open>the tables whose body is \<^verbatim>\<open>acc[char] = special[char] || String.fromCodePoint(base + i)\<close>\<close>
  "specialTable special base letters =
     reduceTable (\<lambda>char i. jsOr (map_of special char) (fromCodePoint (base + i))) letters"

definition boldMap :: styleMap where
  "boldMap =
     \<lparr>upper = offsetTable 0x1D400 upperLetters, lower = offsetTable 0x1D41A lowerLetters,
      digits = Some (offsetTable 0x1D7CE digitLetters)\<rparr>"

definition italicMap :: styleMap where
  "italicMap = \<lparr>upper = offsetTable 0x1D434 upperLetters, lower = italicLower, digits = None\<rparr>"

definition boldItalicMap :: styleMap where
  "boldItalicMap =
     \<lparr>upper = offsetTable 0x1D468 upperLetters, lower = offsetTable 0x1D482 lowerLetters,
      digits = None\<rparr>"

definition boldSansMap :: styleMap where
  "boldSansMap =
     \<lparr>upper = offsetTable 0x1D5D4 upperLetters, lower = offsetTable 0x1D5EE lowerLetters,
      digits = Some (offsetTable 0x1D7EC digitLetters)\<rparr>"

definition sansNormalMap :: styleMap where
  "sansNormalMap =
     \<lparr>upper = offsetTable 0x1D5A0 upperLetters, lower = offsetTable 0x1D5BA lowerLetters,
      digits = Some (offsetTable 0x1D7E2 digitLetters)\<rparr>"

definition italicSansMap :: styleMap where
  "italicSansMap =
     \<lparr>upper = offsetTable 0x1D608 upperLetters, lower = offsetTable 0x1D622 lowerLetters,
      digits = None\<rparr>"

definition boldItalicSansMap :: styleMap where
  "boldItalicSansMap =
     \<lparr>upper = offsetTable 0x1D63C upperLetters, lower = offsetTable 0x1D656 lowerLetters,
      digits = None\<rparr>"

definition scriptMap :: styleMap where
  "scriptMap =
     \<lparr>upper = specialTable scriptUpperSpecial 0x1D49C upperLetters,
      lower = specialTable scriptLowerSpecial 0x1D4B6 lowerLetters, digits = None\<rparr>"

definition monospaceMap :: styleMap where
  "monospaceMap =
     \<lparr>upper = offsetTable 0x1D670 upperLetters, lower = offsetTable 0x1D68A lowerLetters,
      digits = Some (offsetTable 0x1D7F6 digitLetters)\<rparr>"

definition doublestruckMap :: styleMap where
  "doublestruckMap =
     \<lparr>upper = specialTable doublestruckUpperSpecial 0x1D538 upperLetters,
      lower = offsetTable 0x1D552 lowerLetters,
      digits = Some (offsetTable 0x1D7D8 digitLetters)\<rparr>"

definition charMapsList :: "(UnicodeStyle \<times> styleMap) list" where
  \<comment> \<open>\<^verbatim>\<open>charMaps\<close>, in the order of its keys (the order of \<^verbatim>\<open>Object.entries\<close>)\<close>
  "charMapsList =
     [(Bold, boldMap), (Italic, italicMap), (BoldItalic, boldItalicMap),
      (BoldSans, boldSansMap), (SansNormal, sansNormalMap), (ItalicSans, italicSansMap),
      (BoldItalicSans, boldItalicSansMap), (Script, scriptMap), (Monospace, monospaceMap),
      (Doublestruck, doublestruckMap)]"

definition charMaps :: "UnicodeStyle \<Rightarrow> styleMap option" where
  \<comment> \<open>\<^verbatim>\<open>charMaps[style]\<close>\<close>
  "charMaps style = map_of charMapsList style"

definition COMBINING_UNDERLINE :: jsstring where
  "COMBINING_UNDERLINE = [0x0332]"

definition COMBINING_STRIKETHROUGH :: jsstring where
  "COMBINING_STRIKETHROUGH = [0x0336]"

section \<open>Style application\<close>

definition styleChar :: "styleMap \<Rightarrow> jsstring \<Rightarrow> jsstring" where
  \<comment> \<open>the callback of the last \<^verbatim>\<open>map\<close> of \<^verbatim>\<open>toUnicodeStyle\<close>: upper, lower, digits, else unchanged\<close>
  "styleChar m char =
     (case jsTruthy (map_of (upper m) char) of
        Some u \<Rightarrow> u
      | None \<Rightarrow>
          (case jsTruthy (map_of (lower m) char) of
             Some u \<Rightarrow> u
           | None \<Rightarrow>
               (case digits m of
                  None \<Rightarrow> char
                | Some ds \<Rightarrow> (case jsTruthy (map_of ds char) of Some u \<Rightarrow> u | None \<Rightarrow> char))))"

definition appendMarker :: "jsstring \<Rightarrow> jsstring \<Rightarrow> jsstring" where
  \<comment> \<open>\<^verbatim>\<open>text.split('').map(char => char + marker).join('')\<close>\<close>
  "appendMarker marker text = joinEmpty (map (\<lambda>char. char @ marker) (splitChars text))"

function toUnicodeStyle :: "jsstring \<Rightarrow> UnicodeStyle \<Rightarrow> jsstring" where
  "toUnicodeStyle text style =
     (if text = [] then []
      else if style = Underline then appendMarker COMBINING_UNDERLINE text
      else if style = Strikethrough then appendMarker COMBINING_STRIKETHROUGH text
      else if style = BoldUnderline then
        (let boldText = toUnicodeStyle text Bold in appendMarker COMBINING_UNDERLINE boldText)
      else if style = BoldStrikethrough then
        (let boldText = toUnicodeStyle text Bold in appendMarker COMBINING_STRIKETHROUGH boldText)
      else
        (case charMaps style of
           None \<Rightarrow> text
         | Some m \<Rightarrow> joinEmpty (map (styleChar m) (splitChars text))))"
  by pat_completeness auto
termination
  by (relation "measure (\<lambda>(text, style). if style = Bold then 0 else 1)") auto

declare toUnicodeStyle.simps [simp del]

section \<open>List formatting\<close>

definition nonBlankLines :: "jsstring \<Rightarrow> jsstring list" where
  \<comment> \<open>\<^verbatim>\<open>text.split('\n').filter(line => line.trim())\<close>: a line is kept when its trimmed
     form is a non-empty (truthy) string\<close>
  "nonBlankLines text = filter (\<lambda>line. trim line \<noteq> []) (splitOn 0x0A text)"

definition prefixedList :: "jsstring \<Rightarrow> jsstring \<Rightarrow> jsstring" where
  \<comment> \<open>the body shared by the four formatters with a fixed glyph:
     \<^verbatim>\<open>lines.map(line => `G ${line.trim()}`).join('\n')\<close>\<close>
  "prefixedList glyph text =
     joinWith [0x0A] (map (\<lambda>line. glyph @ [0x20] @ trim line) (nonBlankLines text))"

definition toBulletList :: "jsstring \<Rightarrow> jsstring" where
  "toBulletList text = prefixedList [0x2022] text"

definition toNumberedList :: "jsstring \<Rightarrow> jsstring" where
  \<comment> \<open>\<^verbatim>\<open>lines.map((line, i) => `${i + 1}. ${line.trim()}`).join('\n')\<close>\<close>
  "toNumberedList text =
     joinWith [0x0A]
       (map (\<lambda>(i, line). decimal (i + 1) @ [0x2E, 0x20] @ trim line)
          (enumerate 0 (nonBlankLines text)))"

definition toCheckboxList :: "jsstring \<Rightarrow> jsstring" where
  "toCheckboxList text = prefixedList [0x2610] text"

definition toAscendingList :: "jsstring \<Rightarrow> jsstring" where
  "toAscendingList text = prefixedList [0x2197] text"

definition toDescendingList :: "jsstring \<Rightarrow> jsstring" where
  "toDescendingList text = prefixedList [0x2198] text"

section \<open>Formatting removal\<close>

definition styleCaseMaps :: "styleMap \<Rightarrow> caseMap list" where
  \<comment> \<open>the case maps of one style in the order both consumers visit them: upper, lower and,
     where the style has them, digits\<close>
  "styleCaseMaps m = [upper m, lower m] @ (case digits m of None \<Rightarrow> [] | Some ds \<Rightarrow> [ds])"

definition allEntries :: "(UnicodeStyle \<times> jsstring \<times> jsstring) list" where
  \<comment> \<open>every (style, plain, unicode) entry in the iteration order of the nested loops over
     \<^verbatim>\<open>charMaps\<close>\<close>
  "allEntries =
     concat (map (\<lambda>(styleName, m). map (Pair styleName) (concat (styleCaseMaps m))) charMapsList)"

definition setReverse ::
  "jsstring \<times> jsstring \<Rightarrow> (jsstring \<rightharpoonup> jsstring) \<Rightarrow> (jsstring \<rightharpoonup> jsstring)" where
  \<comment> \<open>\<^verbatim>\<open>([plain, unicode]) => { reverseMap[unicode] = plain }\<close>: a later entry overwrites\<close>
  "setReverse entry rm = (case entry of (plain, unicode) \<Rightarrow> rm(unicode \<mapsto> plain))"

definition addStyleMap :: "styleMap \<Rightarrow> (jsstring \<rightharpoonup> jsstring) \<Rightarrow> (jsstring \<rightharpoonup> jsstring)" where
  \<comment> \<open>one round of the \<^verbatim>\<open>forEach\<close> over the styles that fills \<^verbatim>\<open>reverseMap\<close>\<close>
  "addStyleMap m rm = fold (\<lambda>cm rm'. fold setReverse cm rm') (styleCaseMaps m) rm"

definition reverseMap :: "jsstring \<rightharpoonup> jsstring" where
  "reverseMap = fold addStyleMap (map snd charMapsList) Map.empty"

definition isCombiningUnit :: "nat \<Rightarrow> bool" where
  \<comment> \<open>the character class of the regular expression, which has no \<^verbatim>\<open>u\<close> flag and
     matches code units\<close>
  "isCombiningUnit c = ([c] = COMBINING_UNDERLINE \<or> [c] = COMBINING_STRIKETHROUGH)"

definition unstyle :: "jsstring \<Rightarrow> jsstring" where
  \<comment> \<open>\<^verbatim>\<open>char => reverseMap[char] || char\<close>\<close>
  "unstyle char = jsOr (reverseMap char) char"

definition removeUnicodeFormatting :: "jsstring \<Rightarrow> bool \<Rightarrow> jsstring" where
  "removeUnicodeFormatting text preserveCombining =
     (let result = (if preserveCombining then text
                    else filter (\<lambda>c. \<not> isCombiningUnit c) text)
      in joinEmpty (map unstyle (arrayFrom result)))"

section \<open>Emphasis detection and emphasis-preserving conversion\<close>

datatype CharEmphasis = ENone | EBold | EItalic | EBoldItalic

record detected =
  plain :: jsstring
  emphasis :: CharEmphasis

definition emphasisOfStyle :: "UnicodeStyle \<Rightarrow> CharEmphasis" where
  "emphasisOfStyle styleName =
     (if styleName = Bold \<or> styleName = BoldSans then EBold
      else if styleName = Italic \<or> styleName = ItalicSans then EItalic
      else if styleName = BoldItalic \<or> styleName = BoldItalicSans then EBoldItalic
      else ENone)"

definition detectCharEmphasis :: "jsstring \<Rightarrow> detected" where
  \<comment> \<open>the three nested loops return at the first entry whose unicode string is \<^verbatim>\<open>char\<close>\<close>
  "detectCharEmphasis char =
     (case find (\<lambda>(styleName, p, unicode). char = unicode) allEntries of
        Some (styleName, p, unicode) \<Rightarrow> \<lparr>plain = p, emphasis = emphasisOfStyle styleName\<rparr>
      | None \<Rightarrow> \<lparr>plain = char, emphasis = ENone\<rparr>)"

datatype target = Plain | Style UnicodeStyle

type_synonym emphasisMapping = "CharEmphasis \<Rightarrow> target"

definition mkMapping :: "target \<Rightarrow> target \<Rightarrow> target \<Rightarrow> target \<Rightarrow> emphasisMapping" where
  \<comment> \<open>\<^verbatim>\<open>{ none: n, bold: b, italic: i, boldItalic: bi }\<close>\<close>
  "mkMapping n b i bi e =
     (case e of ENone \<Rightarrow> n | EBold \<Rightarrow> b | EItalic \<Rightarrow> i | EBoldItalic \<Rightarrow> bi)"

definition variantEmphasisMap :: "(jsstring \<times> emphasisMapping) list" where
  "variantEmphasisMap =
     [(js ''normal'', mkMapping Plain (Style Bold) (Style Italic) (Style BoldItalic)),
      (js ''bold'', mkMapping (Style Bold) (Style Bold) (Style BoldItalic) (Style BoldItalic)),
      (js ''italic'',
         mkMapping (Style Italic) (Style BoldItalic) (Style Italic) (Style BoldItalic)),
      (js ''boldItalic'',
         mkMapping (Style BoldItalic) (Style BoldItalic) (Style BoldItalic) (Style BoldItalic)),
      (js ''sansNormal'',
         mkMapping (Style SansNormal) (Style BoldSans) (Style ItalicSans) (Style BoldItalicSans)),
      (js ''boldSans'',
         mkMapping (Style BoldSans) (Style BoldSans) (Style BoldItalicSans)
           (Style BoldItalicSans)),
      (js ''italicSans'',
         mkMapping (Style ItalicSans) (Style BoldItalicSans) (Style ItalicSans)
           (Style BoldItalicSans)),
      (js ''boldItalicSans'',
         mkMapping (Style BoldItalicSans) (Style BoldItalicSans) (Style BoldItalicSans)
           (Style BoldItalicSans)),
      (js ''script'', mkMapping (Style Script) (Style Script) (Style Script) (Style Script)),
      (js ''monospace'',
         mkMapping (Style Monospace) (Style Monospace) (Style Monospace) (Style Monospace)),
      (js ''doublestruck'',
         mkMapping (Style Doublestruck) (Style Doublestruck) (Style Doublestruck)
           (Style Doublestruck))]"

text \<open>
  \<^verbatim>\<open>variantEmphasisMap\<close> is an object literal, so its prototype is \<^verbatim>\<open>Object.prototype\<close> and
  the read \<^verbatim>\<open>variantEmphasisMap[targetVariant]\<close> walks the prototype chain: for a name the
  literal does not define but \<^verbatim>\<open>Object.prototype\<close> does, the read yields that inherited
  member (a function, or for \<^verbatim>\<open>__proto__\<close> the prototype object), which is truthy.
  The names are those of ECMAScript's \<^verbatim>\<open>Object.prototype\<close>, Annex B included.
\<close>

definition objectPrototypeNames :: "jsstring list" where
  "objectPrototypeNames =
     map js [''constructor'', ''hasOwnProperty'', ''isPrototypeOf'', ''propertyIsEnumerable'',
             ''toLocaleString'', ''toString'', ''valueOf'', ''__proto__'',
             ''__defineGetter__'', ''__defineSetter__'', ''__lookupGetter__'',
             ''__lookupSetter__'']"

datatype 'a propertyRead = Own 'a | Inherited | Undefined

definition readVariant :: "jsstring \<Rightarrow> emphasisMapping propertyRead" where
  \<comment> \<open>\<^verbatim>\<open>variantEmphasisMap[targetVariant]\<close>\<close>
  "readVariant targetVariant =
     (case map_of variantEmphasisMap targetVariant of
        Some mapping \<Rightarrow> Own mapping
      | None \<Rightarrow> if targetVariant \<in> set objectPrototypeNames then Inherited else Undefined)"

definition toUnicodeStyleUndefined :: "jsstring \<Rightarrow> jsstring" where
  \<comment> \<open>\<^verbatim>\<open>toUnicodeStyle(text, undefined)\<close>, reached when the mapping is an inherited member, whose
     \<^verbatim>\<open>none\<close>, \<^verbatim>\<open>bold\<close>, \<^verbatim>\<open>italic\<close> and \<^verbatim>\<open>boldItalic\<close> properties are all undefined: no
     style comparison holds, \<^verbatim>\<open>charMaps[undefined]\<close> is undefined and the text is returned\<close>
  "toUnicodeStyleUndefined text = (if text = [] then [] else text)"

type_synonym combiningStore = "int \<rightharpoonup> jsstring list"

definition separateStep ::
  "jsstring \<Rightarrow> jsstring list \<times> combiningStore \<Rightarrow> jsstring list \<times> combiningStore" where
  \<comment> \<open>one round of the first loop, on the state \<^verbatim>\<open>(cleanChars, combiningChars)\<close>;
     \<^verbatim>\<open>lastIdx\<close> is \<open>-1\<close> while \<^verbatim>\<open>cleanChars\<close> is empty\<close>
  "separateStep char st =
     (case st of (cleanChars, combiningChars) \<Rightarrow>
        if char = COMBINING_UNDERLINE \<or> char = COMBINING_STRIKETHROUGH then
          (let lastIdx = int (length cleanChars) - 1;
               present = (case combiningChars lastIdx of None \<Rightarrow> [] | Some marks \<Rightarrow> marks)
           in (cleanChars, combiningChars(lastIdx \<mapsto> present @ [char])))
        else (cleanChars @ [char], combiningChars))"

definition separateCombining :: "jsstring \<Rightarrow> jsstring list \<times> combiningStore" where
  "separateCombining text = fold separateStep (arrayFrom text) ([], Map.empty)"

definition convertChar ::
  "emphasisMapping propertyRead \<Rightarrow> combiningStore \<Rightarrow> nat \<times> jsstring \<Rightarrow> jsstring" where
  \<comment> \<open>the callback of \<^verbatim>\<open>cleanChars.map((char, idx) => ...)\<close>\<close>
  "convertChar emphasisMapping combiningChars ic =
     (case ic of (idx, char) \<Rightarrow>
        (let d = detectCharEmphasis char;
             converted =
               (case emphasisMapping of
                  Own mapping \<Rightarrow>
                    (case mapping (emphasis d) of
                       Plain \<Rightarrow> plain d
                     | Style targetStyle \<Rightarrow> toUnicodeStyle (plain d) targetStyle)
                | _ \<Rightarrow> toUnicodeStyleUndefined (plain d))
         in (case combiningChars (int idx) of
               None \<Rightarrow> converted
             | Some marks \<Rightarrow> converted @ joinEmpty marks)))"

definition convertPreservingEmphasis :: "jsstring \<Rightarrow> jsstring \<Rightarrow> jsstring" where
  "convertPreservingEmphasis text targetVariant =
     (let emphasisMapping = readVariant targetVariant in
      if emphasisMapping = Undefined then text
      else
        (case separateCombining text of (cleanChars, combiningChars) \<Rightarrow>
           joinEmpty (map (convertChar emphasisMapping combiningChars)
                        (enumerate 0 cleanChars))))"

section \<open>Auxiliary notions for the proofs\<close>

definition isAsciiAlnum :: "nat \<Rightarrow> bool" where
  \<comment> \<open>an ASCII letter or digit\<close>
  "isAsciiAlnum c =
     ((0x30 \<le> c \<and> c \<le> 0x39) \<or> (0x41 \<le> c \<and> c \<le> 0x5A) \<or> (0x61 \<le> c \<and> c \<le> 0x7A))"

definition letterStyles :: "UnicodeStyle list" where
  \<comment> \<open>the styles that substitute letters and digits, as opposed to the four that append a
     combining mark\<close>
  "letterStyles =
     [Bold, Italic, BoldItalic, SansNormal, BoldSans, ItalicSans, BoldItalicSans, Script,
      Monospace, Doublestruck]"

definition styledChunk :: "jsstring \<Rightarrow> bool" where
  \<comment> \<open>the shape of every table value: one letterlike symbol of the BMP, or a surrogate pair
     of the Mathematical Alphanumeric Symbols block\<close>
  "styledChunk u =
     (case u of
        [c] \<Rightarrow> 0x2100 \<le> c \<and> c \<le> 0x2134
      | [h, l] \<Rightarrow> h = 0xD835 \<and> isLowSurrogate l
      | _ \<Rightarrow> False)"

definition closedChunk :: "jsstring \<Rightarrow> bool" where
  \<comment> \<open>a string that \<^verbatim>\<open>Array.from\<close> yields as one element whatever follows it\<close>
  "closedChunk u =
     (case u of
        [c] \<Rightarrow> \<not> isHighSurrogate c
      | [h, l] \<Rightarrow> isHighSurrogate h \<and> isLowSurrogate l
      | _ \<Rightarrow> False)"

definition startsLow :: "jsstring \<Rightarrow> bool" where
  "startsLow s = (case s of [] \<Rightarrow> False | c # _ \<Rightarrow> isLowSurrogate c)"

definition emphasisedText :: "(bool \<times> nat) list \<Rightarrow> jsstring" where
  \<comment> \<open>a text given character by character: the bold form of the character where the flag
     is set, the plain character elsewhere\<close>
  "emphasisedText xs = concat (map (\<lambda>(b, c). if b then toUnicodeStyle [c] Bold else [c]) xs)"

definition sansMapping :: emphasisMapping where
  \<comment> \<open>the \<^verbatim>\<open>sansNormal\<close> row of \<^verbatim>\<open>variantEmphasisMap\<close>\<close>
  "sansMapping =
     mkMapping (Style SansNormal) (Style BoldSans) (Style ItalicSans) (Style BoldItalicSans)"

text \<open>
  The list formatters in the words of the specification: the lines of the text that are not
  blank (white space only), each trimmed.
\<close>

definition blankLine :: "jsstring \<Rightarrow> bool" where
  "blankLine line = list_all isWhiteSpace line"

definition keptLines :: "jsstring \<Rightarrow> jsstring list" where
  "keptLines t = map trim (filter (\<lambda>line. \<not> blankLine line) (splitOn 0x0A t))"

text \<open>
  A left inverse of the tables, read off the layout of the Unicode blocks: the 26-letter
  alphabets follow each other from U+1D400, the digit sets from U+1D7CE, and the letterlike
  symbols are listed one by one.  It is used in proofs only, to show that no two entries
  share a code point.
\<close>

definition astralOwner :: "nat \<Rightarrow> (UnicodeStyle \<times> nat) option" where
  \<comment> \<open>by the low surrogate \<open>l\<close> of a pair whose high surrogate is D835: the 26-letter
     alphabets follow each other from U+1D400 (DC00), the digit sets from U+1D7CE (DFCE)\<close>
  "astralOwner l =
     (if l < 0xDC00 then None
      else if l < 0xDC1A then Some (Bold, 0x41 + (l - 0xDC00))
      else if l < 0xDC34 then Some (Bold, 0x61 + (l - 0xDC1A))
      else if l < 0xDC4E then Some (Italic, 0x41 + (l - 0xDC34))
      else if l < 0xDC68 then Some (Italic, 0x61 + (l - 0xDC4E))
      else if l < 0xDC82 then Some (BoldItalic, 0x41 + (l - 0xDC68))
      else if l < 0xDC9C then Some (BoldItalic, 0x61 + (l - 0xDC82))
      else if l < 0xDCB6 then Some (Script, 0x41 + (l - 0xDC9C))
      else if l < 0xDCD0 then Some (Script, 0x61 + (l - 0xDCB6))
      else if l < 0xDCEA then None
      else if l < 0xDD04 then None
      else if l < 0xDD1E then None
      else if l < 0xDD38 then None
      else if l < 0xDD52 then Some (Doublestruck, 0x41 + (l - 0xDD38))
      else if l < 0xDD6C then Some (Doublestruck, 0x61 + (l - 0xDD52))
      else if l < 0xDD86 then None
      else if l < 0xDDA0 then None
      else if l < 0xDDBA then Some (SansNormal, 0x41 + (l - 0xDDA0))
      else if l < 0xDDD4 then Some (SansNormal, 0x61 + (l - 0xDDBA))
      else if l < 0xDDEE then Some (BoldSans, 0x41 + (l - 0xDDD4))
      else if l < 0xDE08 then Some (BoldSans, 0x61 + (l - 0xDDEE))
      else if l < 0xDE22 then Some (ItalicSans, 0x41 + (l - 0xDE08))
      else if l < 0xDE3C then Some (ItalicSans, 0x61 + (l - 0xDE22))
      else if l < 0xDE56 then Some (BoldItalicSans, 0x41 + (l - 0xDE3C))
      else if l < 0xDE70 then Some (BoldItalicSans, 0x61 + (l - 0xDE56))
      else if l < 0xDE8A then Some (Monospace, 0x41 + (l - 0xDE70))
      else if l < 0xDEA4 then Some (Monospace, 0x61 + (l - 0xDE8A))
      else if l < 0xDFCE then None
      else if l < 0xDFD8 then Some (Bold, 0x30 + (l - 0xDFCE))
      else if l < 0xDFE2 then Some (Doublestruck, 0x30 + (l - 0xDFD8))
      else if l < 0xDFEC then Some (SansNormal, 0x30 + (l - 0xDFE2))
      else if l < 0xDFF6 then Some (BoldSans, 0x30 + (l - 0xDFEC))
      else if l < 0xE000 then Some (Monospace, 0x30 + (l - 0xDFF6))
      else None)"

definition bmpOwner :: "nat \<Rightarrow> (UnicodeStyle \<times> nat) option" where
  "bmpOwner c =
     (if c = 0x210E then Some (Italic, 0x68)
      else if c = 0x212C then Some (Script, 0x42) else if c = 0x2130 then Some (Script, 0x45)
      else if c = 0x2131 then Some (Script, 0x46) else if c = 0x210B then Some (Script, 0x48)
      else if c = 0x2110 then Some (Script, 0x49) else if c = 0x2112 then Some (Script, 0x4C)
      else if c = 0x2133 then Some (Script, 0x4D) else if c = 0x211B then Some (Script, 0x52)
      else if c = 0x212F then Some (Script, 0x65) else if c = 0x210A then Some (Script, 0x67)
      else if c = 0x2134 then Some (Script, 0x6F)
      else if c = 0x2102 then Some (Doublestruck, 0x43)
      else if c = 0x210D then Some (Doublestruck, 0x48)
      else if c = 0x2115 then Some (Doublestruck, 0x4E)
      else if c = 0x2119 then Some (Doublestruck, 0x50)
      else if c = 0x211A then Some (Doublestruck, 0x51)
      else if c = 0x211D then Some (Doublestruck, 0x52)
      else if c = 0x2124 then Some (Doublestruck, 0x5A)
      else None)"

definition ownerOf :: "jsstring \<Rightarrow> (UnicodeStyle \<times> jsstring) option" where
  "ownerOf u =
     (case u of
        [c] \<Rightarrow> map_option (\<lambda>(s, p). (s, [p])) (bmpOwner c)
      | [h, l] \<Rightarrow> if h = 0xD835 then map_option (\<lambda>(s, p). (s, [p])) (astralOwner l) else None
      | _ \<Rightarrow> None)"

definition goodEntries :: "UnicodeStyle \<Rightarrow> styleMap \<Rightarrow> bool" where
  "goodEntries s m =
     list_all (list_all (\<lambda>(p, u). ownerOf u = Some (s, p))) (styleCaseMaps m)"

section \<open>The tables in closed form\<close>

lemma update_fresh: "k \<notin> fst ` set acc \<Longrightarrow> AList.update k v acc = acc @ [(k, v)]"
  by (induction acc) auto

lemma fold_update_fresh:
  "distinct letters \<Longrightarrow> fst ` set acc \<inter> (\<lambda>c. [c]) ` set letters = {} \<Longrightarrow>
   fold (\<lambda>(i, char) acc. AList.update char (f char i) acc)
     (enumerate n (map (\<lambda>c. [c]) letters)) acc
   = acc @ map (\<lambda>(i, c). ([c], f [c] i)) (enumerate n letters)"
proof (induction letters arbitrary: n acc)
  case Nil
  then show ?case by simp
next
  case (Cons c cs)
  have fresh: "[c] \<notin> fst ` set acc" using Cons.prems(2) by auto
  have "fst ` set (acc @ [([c], f [c] n)]) \<inter> (\<lambda>c. [c]) ` set cs = {}"
    using Cons.prems by auto
  with Cons.IH [of "acc @ [([c], f [c] n)]" "Suc n"] Cons.prems(1) fresh
  show ?case by (simp add: update_fresh)
qed

lemma reduceTable_distinct:
  "distinct letters \<Longrightarrow>
   reduceTable f letters = map (\<lambda>(i, c). ([c], f [c] i)) (enumerate 0 letters)"
  using fold_update_fresh [of letters "[]" f 0] by (simp add: reduceTable_def splitChars_def)

lemma upperLetters_eq:
  "upperLetters =
     [0x41, 0x42, 0x43, 0x44, 0x45, 0x46, 0x47, 0x48, 0x49, 0x4A, 0x4B, 0x4C, 0x4D,
      0x4E, 0x4F, 0x50, 0x51, 0x52, 0x53, 0x54, 0x55, 0x56, 0x57, 0x58, 0x59, 0x5A]"
  by (simp add: upperLetters_def js_def)

lemma lowerLetters_eq:
  "lowerLetters =
     [0x61, 0x62, 0x63, 0x64, 0x65, 0x66, 0x67, 0x68, 0x69, 0x6A, 0x6B, 0x6C, 0x6D,
      0x6E, 0x6F, 0x70, 0x71, 0x72, 0x73, 0x74, 0x75, 0x76, 0x77, 0x78, 0x79, 0x7A]"
  by (simp add: lowerLetters_def js_def)

lemma digitLetters_eq:
  "digitLetters =
     [0x30, 0x31, 0x32, 0x33, 0x34, 0x35, 0x36, 0x37, 0x38, 0x39]"
  by (simp add: digitLetters_def js_def)

lemma distinct_letters: "distinct upperLetters" "distinct lowerLetters" "distinct digitLetters"
  by (simp_all add: upperLetters_eq lowerLetters_eq digitLetters_eq)

lemma enumerate_upperLetters:
  "enumerate 0 upperLetters =
     [(0x0, 0x41), (0x1, 0x42), (0x2, 0x43), (0x3, 0x44), (0x4, 0x45), (0x5, 0x46),
      (0x6, 0x47), (0x7, 0x48), (0x8, 0x49), (0x9, 0x4A), (0xA, 0x4B), (0xB, 0x4C),
      (0xC, 0x4D), (0xD, 0x4E), (0xE, 0x4F), (0xF, 0x50), (0x10, 0x51), (0x11, 0x52),
      (0x12, 0x53), (0x13, 0x54), (0x14, 0x55), (0x15, 0x56), (0x16, 0x57), (0x17,
      0x58), (0x18, 0x59), (0x19, 0x5A)]"
  by (simp add: upperLetters_eq enumerate_eq_zip upt_rec)

lemma enumerate_lowerLetters:
  "enumerate 0 lowerLetters =
     [(0x0, 0x61), (0x1, 0x62), (0x2, 0x63), (0x3, 0x64), (0x4, 0x65), (0x5, 0x66),
      (0x6, 0x67), (0x7, 0x68), (0x8, 0x69), (0x9, 0x6A), (0xA, 0x6B), (0xB, 0x6C),
      (0xC, 0x6D), (0xD, 0x6E), (0xE, 0x6F), (0xF, 0x70), (0x10, 0x71), (0x11, 0x72),
      (0x12, 0x73), (0x13, 0x74), (0x14, 0x75), (0x15, 0x76), (0x16, 0x77), (0x17,
      0x78), (0x18, 0x79), (0x19, 0x7A)]"
  by (simp add: lowerLetters_eq enumerate_eq_zip upt_rec)

lemma enumerate_digitLetters:
  "enumerate 0 digitLetters =
     [(0x0, 0x30), (0x1, 0x31), (0x2, 0x32), (0x3, 0x33), (0x4, 0x34), (0x5, 0x35),
      (0x6, 0x36), (0x7, 0x37), (0x8, 0x38), (0x9, 0x39)]"
  by (simp add: digitLetters_eq enumerate_eq_zip upt_rec)

lemma divmod_block: "k < n \<Longrightarrow> (m * n + k) div n = m \<and> (m * n + k) mod n = (k::nat)"
  by simp

lemma fromCodePoint_math:
  "0x1D400 \<le> cp \<Longrightarrow> cp < 0x1D800 \<Longrightarrow> fromCodePoint cp = [0xD835, cp - 0xF800]"
proof -
  assume a: "0x1D400 \<le> cp" "cp < 0x1D800"
  define k where "k = cp - 0x1D400"
  have cp: "cp = 0x1D400 + k" and k: "k < 0x400" using a by (simp_all add: k_def)
  have "(0xD400 + k) div 0x400 = 0x35" "(0xD400 + k) mod 0x400 = k"
    using divmod_block [of k "0x400" "0x35"] k by simp_all
  then show ?thesis by (simp add: fromCodePoint_def cp)
qed

lemma fromCodePoint_bmp: "cp < 0x10000 \<Longrightarrow> fromCodePoint cp = [cp]"
  by (simp add: fromCodePoint_def)

lemmas table_eqs =
  offsetTable_def specialTable_def italicLower_def
  reduceTable_distinct [OF distinct_letters(1)] reduceTable_distinct [OF distinct_letters(2)]
  reduceTable_distinct [OF distinct_letters(3)]
  enumerate_upperLetters enumerate_lowerLetters enumerate_digitLetters

lemmas eval_defs =
  fromCodePoint_math jsOr_def jsTruthy_def
  scriptUpperSpecial_def scriptLowerSpecial_def doublestruckUpperSpecial_def js_def

lemmas owner_defs = ownerOf_def astralOwner_def bmpOwner_def

lemma owner_boldMap: "goodEntries Bold boldMap"
  by (simp add: goodEntries_def boldMap_def styleCaseMaps_def table_eqs eval_defs owner_defs)

lemma owner_italicMap: "goodEntries Italic italicMap"
  by (simp add: goodEntries_def italicMap_def styleCaseMaps_def table_eqs eval_defs owner_defs)

lemma owner_boldItalicMap: "goodEntries BoldItalic boldItalicMap"
  by (simp add: goodEntries_def boldItalicMap_def styleCaseMaps_def table_eqs eval_defs owner_defs)

lemma owner_boldSansMap: "goodEntries BoldSans boldSansMap"
  by (simp add: goodEntries_def boldSansMap_def styleCaseMaps_def table_eqs eval_defs owner_defs)

lemma owner_sansNormalMap: "goodEntries SansNormal sansNormalMap"
  by (simp add: goodEntries_def sansNormalMap_def styleCaseMaps_def table_eqs eval_defs owner_defs)

lemma owner_italicSansMap: "goodEntries ItalicSans italicSansMap"
  by (simp add: goodEntries_def italicSansMap_def styleCaseMaps_def table_eqs eval_defs owner_defs)

lemma owner_boldItalicSansMap: "goodEntries BoldItalicSans boldItalicSansMap"
  by (simp add: goodEntries_def boldItalicSansMap_def styleCaseMaps_def table_eqs eval_defs owner_defs)

lemma owner_scriptMap: "goodEntries Script scriptMap"
  by (simp add: goodEntries_def scriptMap_def styleCaseMaps_def table_eqs eval_defs owner_defs)

lemma owner_monospaceMap: "goodEntries Monospace monospaceMap"
  by (simp add: goodEntries_def monospaceMap_def styleCaseMaps_def table_eqs eval_defs owner_defs)

lemma owner_doublestruckMap: "goodEntries Doublestruck doublestruckMap"
  by (simp add: goodEntries_def doublestruckMap_def styleCaseMaps_def table_eqs eval_defs owner_defs)

lemma charMapsList_good: "(s, m) \<in> set charMapsList \<Longrightarrow> goodEntries s m"
  by (auto simp: charMapsList_def owner_boldMap owner_italicMap owner_boldItalicMap
      owner_boldSansMap owner_sansNormalMap owner_italicSansMap owner_boldItalicSansMap
      owner_scriptMap owner_monospaceMap owner_doublestruckMap)

lemma allEntries_iff:
  "(s, p, u) \<in> set allEntries \<longleftrightarrow>
   (\<exists>m. (s, m) \<in> set charMapsList \<and> (\<exists>cm \<in> set (styleCaseMaps m). (p, u) \<in> set cm))"
  by (force simp: allEntries_def)

lemma owner_all: "(s, p, u) \<in> set allEntries \<Longrightarrow> ownerOf u = Some (s, p)"
proof -
  assume "(s, p, u) \<in> set allEntries"
  then obtain m cm where m: "(s, m) \<in> set charMapsList"
    and cm: "cm \<in> set (styleCaseMaps m)" and pu: "(p, u) \<in> set cm"
    by (auto simp: allEntries_iff)
  from charMapsList_good [OF m] cm pu show ?thesis
    by (auto simp: goodEntries_def list_all_iff)
qed

lemma entries_unique:
  "(s, p, u) \<in> set allEntries \<Longrightarrow> (s', p', u) \<in> set allEntries \<Longrightarrow> s' = s \<and> p' = p"
proof -
  assume a: "(s, p, u) \<in> set allEntries" and b: "(s', p', u) \<in> set allEntries"
  from owner_all [OF a] owner_all [OF b] show ?thesis by simp
qed

lemma bmpOwner_SomeD:
  "bmpOwner c = Some (s, p) \<Longrightarrow> 0x2100 \<le> c \<and> c \<le> 0x2134 \<and> isAsciiAlnum p"
  by (auto simp: bmpOwner_def isAsciiAlnum_def split: if_splits)
lemma astralOwner_SomeD:
  "astralOwner l = Some (s, p) \<Longrightarrow> isLowSurrogate l \<and> isAsciiAlnum p"
  by (auto simp: astralOwner_def isAsciiAlnum_def isLowSurrogate_def split: if_splits)

lemma ownerOf_SomeD:
  assumes "ownerOf u = Some (s, p)"
  shows "styledChunk u \<and> (\<exists>c. p = [c] \<and> isAsciiAlnum c)"
proof (cases u)
  case Nil
  with assms show ?thesis by (simp add: ownerOf_def)
next
  case (Cons h r)
  show ?thesis
  proof (cases r)
    case Nil
    with Cons assms show ?thesis
      by (auto simp: ownerOf_def styledChunk_def dest: bmpOwner_SomeD)
  next
    case (Cons l r')
    with \<open>u = h # r\<close> assms show ?thesis
      by (cases r') (auto simp: ownerOf_def styledChunk_def split: if_splits dest: astralOwner_SomeD)
  qed
qed

section \<open>Code points\<close>

lemma arrayFrom_pair:
  "isHighSurrogate h \<Longrightarrow> isLowSurrogate l \<Longrightarrow> arrayFrom (h # l # rest) = [h, l] # arrayFrom rest"
  by simp

lemma arrayFrom_single:
  "\<not> (isHighSurrogate c \<and> startsLow rest) \<Longrightarrow> arrayFrom (c # rest) = [c] # arrayFrom rest"
  by (cases rest) (auto simp: startsLow_def)

lemma arrayFrom_chunk:
  "closedChunk u \<Longrightarrow> arrayFrom (u @ rest) = u # arrayFrom rest"
proof (cases u)
  case Nil
  assume "closedChunk u"
  with Nil show ?thesis by (simp add: closedChunk_def)
next
  case (Cons h r)
  assume cl: "closedChunk u"
  show ?thesis
  proof (cases r)
    case Nil
    with Cons cl show ?thesis by (simp add: closedChunk_def arrayFrom_single)
  next
    case (Cons l r')
    with \<open>u = h # r\<close> cl show ?thesis by (cases r') (simp_all add: closedChunk_def)
  qed
qed

lemma arrayFrom_concat: "list_all closedChunk chunks \<Longrightarrow> arrayFrom (concat chunks) = chunks"
  by (induction chunks) (simp_all add: arrayFrom_chunk)

lemma concat_arrayFrom: "concat (arrayFrom s) = s"
  by (induction s rule: arrayFrom.induct) simp_all

lemma arrayFrom_nonempty: "ch \<in> set (arrayFrom s) \<Longrightarrow> ch \<noteq> []"
  by (induction s rule: arrayFrom.induct) (auto split: if_splits)

lemma arrayFrom_units: "ch \<in> set (arrayFrom s) \<Longrightarrow> set ch \<subseteq> set s"
  by (induction s rule: arrayFrom.induct) (auto split: if_splits)

lemma styledChunk_closed: "styledChunk u \<Longrightarrow> closedChunk u"
  by (auto simp: styledChunk_def closedChunk_def isHighSurrogate_def isLowSurrogate_def
      split: list.splits)

lemma styledChunk_units: "styledChunk u \<Longrightarrow> c \<in> set u \<Longrightarrow> 0x2100 \<le> c"
  by (auto simp: styledChunk_def isLowSurrogate_def split: list.splits)

lemma alnum_closed: "isAsciiAlnum c \<Longrightarrow> closedChunk [c]"
  by (auto simp: closedChunk_def isAsciiAlnum_def isHighSurrogate_def)

section \<open>The reverse table and the detection loop\<close>

lemma fold_fold_concat: "fold (\<lambda>xs acc. fold f xs acc) xss acc = fold f (concat xss) acc"
  by (induction xss arbitrary: acc) simp_all

lemma fold_addStyleMap:
  "fold addStyleMap (map snd ms) rm =
   fold setReverse (concat (map (\<lambda>(s, m). concat (styleCaseMaps m)) ms)) rm"
  by (induction ms arbitrary: rm) (auto simp: addStyleMap_def fold_fold_concat)

lemma map_snd_allEntries:
  "map snd allEntries = concat (map (\<lambda>(s, m). concat (styleCaseMaps m)) charMapsList)"
  by (simp add: allEntries_def map_concat comp_def case_prod_unfold)

lemma reverseMap_fold: "reverseMap = fold setReverse (map snd allEntries) Map.empty"
  by (simp add: reverseMap_def fold_addStyleMap map_snd_allEntries)

lemma setReverse_apply: "setReverse (p, u) rm = rm(u \<mapsto> p)"
  by (simp add: setReverse_def)

lemma fold_setReverse_None:
  "k \<notin> snd ` set es \<Longrightarrow> fold setReverse es rm k = rm k"
  by (induction es arbitrary: rm) (auto simp: setReverse_apply)

lemma fold_setReverse_cases:
  "fold setReverse es rm k = Some v \<Longrightarrow> rm k = Some v \<or> (v, k) \<in> set es"
proof (induction es arbitrary: rm)
  case Nil
  then show ?case by simp
next
  case (Cons e es)
  obtain p u where e: "e = (p, u)" by (cases e)
  from Cons.prems have "fold setReverse es (rm(u \<mapsto> p)) k = Some v"
    by (simp add: e setReverse_apply)
  from Cons.IH [OF this] show ?case by (auto simp: e split: if_splits)
qed

lemma fold_setReverse_defined:
  "k \<in> snd ` set es \<Longrightarrow> \<exists>v. fold setReverse es rm k = Some v"
proof (induction es arbitrary: rm)
  case Nil
  then show ?case by simp
next
  case (Cons e es)
  obtain p' u' where e: "e = (p', u')" by (cases e)
  show ?case
  proof (cases "k \<in> snd ` set es")
    case True
    from Cons.IH [OF this] show ?thesis by simp
  next
    case False
    with Cons.prems have k: "u' = k" by (force simp: e)
    from fold_setReverse_None [OF False] show ?thesis by (simp add: e k setReverse_apply)
  qed
qed

lemma reverseMap_SomeD: "reverseMap u = Some p \<Longrightarrow> \<exists>s. (s, p, u) \<in> set allEntries"
  using fold_setReverse_cases [of "map snd allEntries" Map.empty u p]
  by (auto simp: reverseMap_fold)

lemma reverseMap_entry:
  assumes "(s, p, u) \<in> set allEntries"
  shows "reverseMap u = Some p"
proof -
  from assms have "u \<in> snd ` set (map snd allEntries)" by force
  from fold_setReverse_defined [OF this] obtain v where v: "reverseMap u = Some v"
    by (auto simp: reverseMap_fold)
  from reverseMap_SomeD [OF v] obtain s' where "(s', v, u) \<in> set allEntries" ..
  with entries_unique [OF assms] v show ?thesis by simp
qed

lemma reverseMap_None: "\<not> styledChunk u \<Longrightarrow> reverseMap u = None"
proof (rule ccontr)
  assume n: "\<not> styledChunk u" and "reverseMap u \<noteq> None"
  then obtain p where "reverseMap u = Some p" by auto
  from reverseMap_SomeD [OF this] obtain s where "(s, p, u) \<in> set allEntries" ..
  from ownerOf_SomeD [OF owner_all [OF this]] n show False by simp
qed

lemma entry_shape:
  "(s, p, u) \<in> set allEntries \<Longrightarrow> styledChunk u \<and> (\<exists>c. p = [c] \<and> isAsciiAlnum c)"
  using ownerOf_SomeD [OF owner_all] .

lemma find_entry:
  assumes "(s, p, u) \<in> set allEntries"
  shows "find (\<lambda>(styleName, p', unicode). u = unicode) allEntries = Some (s, p, u)"
proof (cases "find (\<lambda>(styleName, p', unicode). u = unicode) allEntries")
  case None
  with assms show ?thesis by (auto simp: find_None_iff)
next
  case (Some e)
  obtain s' p' u' where e: "e = (s', p', u')" by (cases e)
  from Some have "e \<in> set allEntries" "u = u'"
    by (auto simp: find_Some_iff e in_set_conv_nth)
  with entries_unique [OF assms, of s' p'] Some show ?thesis by (simp add: e)
qed

lemma detect_entry:
  "(s, p, u) \<in> set allEntries \<Longrightarrow>
   detectCharEmphasis u = \<lparr>plain = p, emphasis = emphasisOfStyle s\<rparr>"
  by (simp add: detectCharEmphasis_def find_entry)

lemma detect_other:
  "\<not> styledChunk char \<Longrightarrow> detectCharEmphasis char = \<lparr>plain = char, emphasis = ENone\<rparr>"
proof -
  assume n: "\<not> styledChunk char"
  have "find (\<lambda>(styleName, p', unicode). char = unicode) allEntries = None"
    using entry_shape n by (fastforce simp: find_None_iff)
  then show ?thesis by (simp add: detectCharEmphasis_def)
qed

section \<open>Removing what a style applied\<close>

lemma charMaps_letterStyles:
  "s \<in> set letterStyles \<Longrightarrow> \<exists>m. charMaps s = Some m \<and> (s, m) \<in> set charMapsList"
  by (auto simp: letterStyles_def charMaps_def charMapsList_def)

lemma letterStyles_not_combining:
  "s \<in> set letterStyles \<Longrightarrow>
   s \<noteq> Underline \<and> s \<noteq> Strikethrough \<and> s \<noteq> BoldUnderline \<and> s \<noteq> BoldStrikethrough"
  by (auto simp: letterStyles_def)

lemma toUnicodeStyle_letter:
  "s \<in> set letterStyles \<Longrightarrow> charMaps s = Some m \<Longrightarrow>
   toUnicodeStyle text s = concat (map (\<lambda>c. styleChar m [c]) text)"
  using letterStyles_not_combining [of s]
  by (simp add: toUnicodeStyle.simps [of _ s] joinEmpty_def splitChars_def comp_def)

lemma jsTruthy_map_of:
  "jsTruthy (map_of cm ch) = Some u \<Longrightarrow> (ch, u) \<in> set cm"
  by (auto simp: jsTruthy_def split: option.splits if_splits dest: map_of_SomeD)

lemma styleChar_cases:
  assumes "(s, m) \<in> set charMapsList"
  shows "styleChar m ch = ch \<or> (s, ch, styleChar m ch) \<in> set allEntries"
proof -
  have ent: "(ch, u) \<in> set cm \<Longrightarrow> cm \<in> set (styleCaseMaps m) \<Longrightarrow> (s, ch, u) \<in> set allEntries"
    for u cm using assms by (auto simp: allEntries_iff)
  show ?thesis
    by (auto simp: styleChar_def styleCaseMaps_def split: option.splits
        dest!: jsTruthy_map_of intro: ent)
qed

lemma not_combining_alnum: "isAsciiAlnum c \<Longrightarrow> \<not> isCombiningUnit c"
  by (auto simp: isAsciiAlnum_def isCombiningUnit_def COMBINING_UNDERLINE_def
      COMBINING_STRIKETHROUGH_def)

lemma not_combining_styled: "styledChunk u \<Longrightarrow> c \<in> set u \<Longrightarrow> \<not> isCombiningUnit c"
  using styledChunk_units [of u c]
  by (auto simp: isCombiningUnit_def COMBINING_UNDERLINE_def COMBINING_STRIKETHROUGH_def)

lemma not_styled_alnum: "isAsciiAlnum c \<Longrightarrow> \<not> styledChunk [c]"
  by (auto simp: isAsciiAlnum_def styledChunk_def)

lemma unstyle_entry: "(s, p, u) \<in> set allEntries \<Longrightarrow> unstyle u = p"
  using entry_shape [of s p u]
  by (auto simp: unstyle_def reverseMap_entry jsOr_def jsTruthy_def)

lemma unstyle_other: "\<not> styledChunk u \<Longrightarrow> unstyle u = u"
  by (simp add: unstyle_def reverseMap_None jsOr_def jsTruthy_def)

lemma unstyle_cases: "unstyle ch = ch \<or> (\<exists>c. unstyle ch = [c] \<and> isAsciiAlnum c)"
proof (cases "reverseMap ch")
  case None
  then show ?thesis by (simp add: unstyle_def jsOr_def jsTruthy_def)
next
  case (Some p)
  from reverseMap_SomeD [OF Some] obtain s where e: "(s, p, ch) \<in> set allEntries" ..
  from entry_shape [OF e] unstyle_entry [OF e] show ?thesis by auto
qed

lemma unstyle_idem: "unstyle (unstyle ch) = unstyle ch"
  using unstyle_cases [of ch] by (auto simp: unstyle_other not_styled_alnum)

lemma styled_char:
  assumes m: "(s, m) \<in> set charMapsList" and c: "isAsciiAlnum c"
  shows "closedChunk (styleChar m [c]) \<and> (\<forall>x \<in> set (styleChar m [c]). \<not> isCombiningUnit x) \<and>
         unstyle (styleChar m [c]) = [c]"
proof -
  from styleChar_cases [OF m, of "[c]"] show ?thesis
  proof
    assume "styleChar m [c] = [c]"
    with c show ?thesis
      by (simp add: alnum_closed not_combining_alnum unstyle_other not_styled_alnum)
  next
    assume e: "(s, [c], styleChar m [c]) \<in> set allEntries"
    from entry_shape [OF e] unstyle_entry [OF e] show ?thesis
      by (auto simp: styledChunk_closed not_combining_styled)
  qed
qed

text \<open>
  Claim C1.  For a text of ASCII letters and digits and any of the ten styles that
  substitute letters and digits, removing the formatting (marks not preserved) from the
  styled text gives the text back exactly.
\<close>

theorem strip_apply_roundtrip:
  assumes alnum: "list_all isAsciiAlnum text" and style: "s \<in> set letterStyles"
  shows "removeUnicodeFormatting (toUnicodeStyle text s) False = text"
proof -
  from charMaps_letterStyles [OF style] obtain m
    where cm: "charMaps s = Some m" and m: "(s, m) \<in> set charMapsList" by blast
  let ?chunks = "map (\<lambda>c. styleChar m [c]) text"
  have each: "closedChunk u \<and> (\<forall>x \<in> set u. \<not> isCombiningUnit x)" if "u \<in> set ?chunks" for u
    using that alnum styled_char [OF m] by (auto simp: list_all_iff)
  have styled: "toUnicodeStyle text s = concat ?chunks"
    by (rule toUnicodeStyle_letter [OF style cm])
  have keep: "filter (\<lambda>c. \<not> isCombiningUnit c) (concat ?chunks) = concat ?chunks"
    using each by (auto simp: filter_id_conv)
  have cps: "arrayFrom (concat ?chunks) = ?chunks"
    using each by (intro arrayFrom_concat) (simp add: list_all_iff)
  have retr: "map unstyle ?chunks = map (\<lambda>c. [c]) text"
    using alnum styled_char [OF m] by (auto simp: list_all_iff)
  have "concat (map unstyle ?chunks) = text"
    by (simp only: retr) simp
  then show ?thesis
    by (simp add: removeUnicodeFormatting_def styled keep cps joinEmpty_def del: map_map)
qed

theorem strip_apply_roundtrip_witness:
  "list_all isAsciiAlnum (js ''Hi5'') \<and> Italic \<in> set letterStyles \<and>
   removeUnicodeFormatting (toUnicodeStyle (js ''Hi5'') Italic) False = js ''Hi5''"
  using strip_apply_roundtrip [of "js ''Hi5''" Italic]
  by (simp add: js_def isAsciiAlnum_def letterStyles_def)

section \<open>Removal is idempotent\<close>

lemma startsLow_unstyled:
  "startsLow (concat (map unstyle (arrayFrom s))) \<Longrightarrow> startsLow s"
proof (cases s)
  case Nil
  assume "startsLow (concat (map unstyle (arrayFrom s)))"
  with Nil show ?thesis by (simp add: startsLow_def)
next
  case (Cons c r)
  assume a: "startsLow (concat (map unstyle (arrayFrom s)))"
  have "\<exists>ch rest. arrayFrom (c # r) = ch # rest \<and> hd ch = c \<and> ch \<noteq> []"
    by (cases r) auto
  with Cons obtain ch rest where af: "arrayFrom s = ch # rest" and hd: "hd ch = c" "ch \<noteq> []"
    by auto
  from unstyle_cases [of ch] show ?thesis
  proof
    assume "unstyle ch = ch"
    with a af hd Cons show ?thesis by (cases ch) (auto simp: startsLow_def)
  next
    assume "\<exists>x. unstyle ch = [x] \<and> isAsciiAlnum x"
    with a af show ?thesis
      by (auto simp: startsLow_def isAsciiAlnum_def isLowSurrogate_def)
  qed
qed

lemma alnum_not_high: "isAsciiAlnum c \<Longrightarrow> \<not> isHighSurrogate c"
  by (auto simp: isAsciiAlnum_def isHighSurrogate_def)

lemma arrayFrom_unstyled:
  "arrayFrom (concat (map unstyle (arrayFrom s))) = map unstyle (arrayFrom s)"
proof (induction s rule: arrayFrom.induct)
  case 1
  show ?case by simp
next
  case (2 c)
  from unstyle_cases [of "[c]"] show ?case by auto
next
  case (3 c d cs)
  let ?R = "concat (map unstyle (arrayFrom cs))"
  let ?R' = "concat (map unstyle (arrayFrom (d # cs)))"
  show ?case
  proof (cases "isHighSurrogate c \<and> isLowSurrogate d")
    case True
    with 3 have IH: "arrayFrom ?R = map unstyle (arrayFrom cs)" by simp
    from unstyle_cases [of "[c, d]"] show ?thesis
    proof
      assume "unstyle [c, d] = [c, d]"
      with True IH show ?thesis by simp
    next
      assume "\<exists>x. unstyle [c, d] = [x] \<and> isAsciiAlnum x"
      then obtain x where x: "unstyle [c, d] = [x]" "isAsciiAlnum x" by blast
      with True IH show ?thesis by (simp add: arrayFrom_single alnum_not_high)
    qed
  next
    case False
    with 3 have IH: "arrayFrom ?R' = map unstyle (arrayFrom (d # cs))" by simp
    from False have af: "arrayFrom (c # d # cs) = [c] # arrayFrom (d # cs)" by simp
    from unstyle_cases [of "[c]"] show ?thesis
    proof
      assume same: "unstyle [c] = [c]"
      have "\<not> (isHighSurrogate c \<and> startsLow ?R')"
        using False startsLow_unstyled [of "d # cs"] by (auto simp: startsLow_def)
      from arrayFrom_single [OF this] IH same show ?thesis by (simp only: af) simp
    next
      assume "\<exists>x. unstyle [c] = [x] \<and> isAsciiAlnum x"
      then obtain x where x: "unstyle [c] = [x]" "isAsciiAlnum x" by blast
      from arrayFrom_single [of x ?R'] alnum_not_high [OF x(2)] IH x(1)
      show ?thesis by (simp only: af) simp
    qed
  qed
qed

lemma unstyled_no_combining:
  assumes "\<forall>c \<in> set s. \<not> isCombiningUnit c"
  shows "\<forall>c \<in> set (concat (map unstyle (arrayFrom s))). \<not> isCombiningUnit c"
proof -
  have "\<not> isCombiningUnit c" if ch: "ch \<in> set (arrayFrom s)" and c: "c \<in> set (unstyle ch)"
    for ch c
    using unstyle_cases [of ch] arrayFrom_units [OF ch] assms c
    by (auto simp: not_combining_alnum)
  then show ?thesis by auto
qed

text \<open>
  Claim C10.  Removing the formatting with the default \<^verbatim>\<open>preserveCombining = false\<close> is
  idempotent on every string, ill-formed surrogate sequences included.
\<close>

theorem remove_idempotent:
  "removeUnicodeFormatting (removeUnicodeFormatting t False) False =
   removeUnicodeFormatting t False"
proof -
  let ?s = "filter (\<lambda>c. \<not> isCombiningUnit c) t"
  let ?r = "concat (map unstyle (arrayFrom ?s))"
  have r: "removeUnicodeFormatting t False = ?r"
    by (simp add: removeUnicodeFormatting_def joinEmpty_def)
  have "\<forall>c \<in> set ?r. \<not> isCombiningUnit c"
    by (rule unstyled_no_combining) simp
  then have keep: "filter (\<lambda>c. \<not> isCombiningUnit c) ?r = ?r"
    by (rule filter_True)
  have "removeUnicodeFormatting ?r False = concat (map unstyle (arrayFrom ?r))"
    unfolding removeUnicodeFormatting_def joinEmpty_def Let_def by (simp only: keep if_False)
  also have "\<dots> = concat (map unstyle (map unstyle (arrayFrom ?s)))"
    by (simp only: arrayFrom_unstyled)
  also have "\<dots> = ?r" by (simp add: unstyle_idem comp_def)
  finally show ?thesis by (simp only: r)
qed

section \<open>Evaluating the tables\<close>

lemmas map_defs = boldMap_def italicMap_def boldItalicMap_def boldSansMap_def sansNormalMap_def
  italicSansMap_def boldItalicSansMap_def scriptMap_def monospaceMap_def doublestruckMap_def

lemma charMaps_eval:
  "charMaps Bold = Some boldMap" "charMaps Italic = Some italicMap"
  "charMaps BoldItalic = Some boldItalicMap" "charMaps BoldSans = Some boldSansMap"
  "charMaps SansNormal = Some sansNormalMap" "charMaps ItalicSans = Some italicSansMap"
  "charMaps BoldItalicSans = Some boldItalicSansMap" "charMaps Script = Some scriptMap"
  "charMaps Monospace = Some monospaceMap" "charMaps Doublestruck = Some doublestruckMap"
  "charMaps Underline = None" "charMaps Strikethrough = None"
  "charMaps BoldUnderline = None" "charMaps BoldStrikethrough = None"
  by (simp_all add: charMaps_def charMapsList_def)

lemma toUnicodeStyle_char:
  "s \<in> set letterStyles \<Longrightarrow> charMaps s = Some m \<Longrightarrow> toUnicodeStyle [c] s = styleChar m [c]"
  by (simp add: toUnicodeStyle_letter)

lemmas char_eval = styleChar_def map_defs table_eqs eval_defs

section \<open>Single characters, evaluated\<close>

lemma bold_A: "toUnicodeStyle [0x41] Bold = [0xD835, 0xDC00]"
  by (simp add: toUnicodeStyle_char [OF _ charMaps_eval(1)] letterStyles_def char_eval)

lemma entryI:
  "(s, m) \<in> set charMapsList \<Longrightarrow> cm \<in> set (styleCaseMaps m) \<Longrightarrow> (p, u) \<in> set cm \<Longrightarrow>
   (s, p, u) \<in> set allEntries"
  by (auto simp: allEntries_iff)

lemma entry_bold_A: "(Bold, [0x41], [0xD835, 0xDC00]) \<in> set allEntries"
proof (rule entryI)
  show "(Bold, boldMap) \<in> set charMapsList" by (simp add: charMapsList_def)
  show "upper boldMap \<in> set (styleCaseMaps boldMap)" by (simp add: styleCaseMaps_def)
  show "([0x41], [0xD835, 0xDC00]) \<in> set (upper boldMap)"
    by (simp add: map_defs table_eqs eval_defs)
qed

lemma entry_script_B: "(Script, [0x42], [0x212C]) \<in> set allEntries"
proof (rule entryI)
  show "(Script, scriptMap) \<in> set charMapsList" by (simp add: charMapsList_def)
  show "upper scriptMap \<in> set (styleCaseMaps scriptMap)" by (simp add: styleCaseMaps_def)
  show "([0x42], [0x212C]) \<in> set (upper scriptMap)"
    by (simp add: map_defs table_eqs eval_defs)
qed

lemma entry_boldSans_A: "(BoldSans, [0x41], [0xD835, 0xDDD4]) \<in> set allEntries"
proof (rule entryI)
  show "(BoldSans, boldSansMap) \<in> set charMapsList" by (simp add: charMapsList_def)
  show "upper boldSansMap \<in> set (styleCaseMaps boldSansMap)" by (simp add: styleCaseMaps_def)
  show "([0x41], [0xD835, 0xDDD4]) \<in> set (upper boldSansMap)"
    by (simp add: map_defs table_eqs eval_defs)
qed

section \<open>Claims about the tables\<close>

text \<open>
  Claim C7.  The tables are offsets with fixed exceptions: italic h is the Planck constant
  U+210E and not the code point at the italic offset; script B, E, F, H, I, L, M, R, e, g, o
  are the letterlike symbols of the BMP and not the code points at the script offsets; every
  other italic lowercase letter and every other script letter is the offset code point.
\<close>

theorem table_exceptions:
  "toUnicodeStyle (js ''h'') Italic = [0x210E] \<and>
   toUnicodeStyle (js ''h'') Italic \<noteq> fromCodePoint (0x1D44E + 7) \<and>
   map (\<lambda>c. toUnicodeStyle [c] Italic) lowerLetters =
     map (\<lambda>i. if i = 7 then [0x210E] else fromCodePoint (0x1D44E + i)) [0..<26] \<and>
   map (\<lambda>c. toUnicodeStyle [c] Script) (js ''BEFHILMRego'') =
     [[0x212C], [0x2130], [0x2131], [0x210B], [0x2110], [0x2112], [0x2133], [0x211B],
      [0x212F], [0x210A], [0x2134]] \<and>
   (\<forall>i. length (fromCodePoint (0x1D49C + i)) = 2 \<and> length (fromCodePoint (0x1D4B6 + i)) = 2)"
proof -
  have h: "toUnicodeStyle (js ''h'') Italic = [0x210E]"
    by (simp add: js_def toUnicodeStyle_char [OF _ charMaps_eval(2)] letterStyles_def char_eval)
  have ne: "fromCodePoint (0x1D44E + 7) \<noteq> [0x210E]" by (simp add: fromCodePoint_def)
  have il: "map (\<lambda>c. toUnicodeStyle [c] Italic) lowerLetters =
     map (\<lambda>i. if i = 7 then [0x210E] else fromCodePoint (0x1D44E + i)) [0..<26]"
    apply (subst lowerLetters_eq)
    apply (simp add: toUnicodeStyle_char [OF _ charMaps_eval(2)] letterStyles_def char_eval
        upt_rec)
    done
  have sp: "map (\<lambda>c. toUnicodeStyle [c] Script) (js ''BEFHILMRego'') =
     [[0x212C], [0x2130], [0x2131], [0x210B], [0x2110], [0x2112], [0x2133], [0x211B],
      [0x212F], [0x210A], [0x2134]]"
    by (simp add: js_def toUnicodeStyle_char [OF _ charMaps_eval(8)] letterStyles_def char_eval)
  have len: "\<forall>i. length (fromCodePoint (0x1D49C + i)) = 2 \<and>
      length (fromCodePoint (0x1D4B6 + i)) = 2"
    by (simp add: fromCodePoint_def)
  from h ne il sp len show ?thesis by (simp only:) simp
qed

section \<open>Detection and the reverse table\<close>

lemma detect_unmapped:
  "char \<notin> (\<lambda>(s, p, u). u) ` set allEntries \<Longrightarrow>
   detectCharEmphasis char = \<lparr>plain = char, emphasis = ENone\<rparr>"
proof -
  assume "char \<notin> (\<lambda>(s, p, u). u) ` set allEntries"
  then have "find (\<lambda>(styleName, p', unicode). char = unicode) allEntries = None"
    by (force simp: find_None_iff)
  then show ?thesis by (simp add: detectCharEmphasis_def)
qed

lemma ascii_not_styled: "c < 0x80 \<Longrightarrow> \<not> styledChunk [c]"
  by (simp add: styledChunk_def)

text \<open>
  Claim C6.  A character of the boldSans, italicSans or boldItalicSans table is detected
  with its plain letter and the emphasis of the serif counterpart (bold, italic,
  boldItalic); a character of the script, monospace or doublestruck table is detected
  with emphasis none; so is every string that no table produces, plain ASCII included.
\<close>

theorem detect_buckets:
  "(\<forall>(s, p, u) \<in> set allEntries.
      detectCharEmphasis u =
        \<lparr>plain = p,
         emphasis =
           (if s \<in> {Bold, BoldSans} then EBold
            else if s \<in> {Italic, ItalicSans} then EItalic
            else if s \<in> {BoldItalic, BoldItalicSans} then EBoldItalic
            else ENone)\<rparr>) \<and>
   (\<forall>(s, p, u) \<in> set allEntries.
      s \<in> {Script, Monospace, Doublestruck} \<longrightarrow> emphasis (detectCharEmphasis u) = ENone) \<and>
   (\<forall>char. char \<notin> (\<lambda>(s, p, u). u) ` set allEntries \<longrightarrow>
      detectCharEmphasis char = \<lparr>plain = char, emphasis = ENone\<rparr>) \<and>
   (\<forall>c < 0x80. detectCharEmphasis [c] = \<lparr>plain = [c], emphasis = ENone\<rparr>)"
proof -
  have a: "detectCharEmphasis u =
        \<lparr>plain = p,
         emphasis =
           (if s \<in> {Bold, BoldSans} then EBold
            else if s \<in> {Italic, ItalicSans} then EItalic
            else if s \<in> {BoldItalic, BoldItalicSans} then EBoldItalic
            else ENone)\<rparr>" if "(s, p, u) \<in> set allEntries" for s p u
    using detect_entry [OF that] by (simp add: emphasisOfStyle_def)
  have b: "emphasis (detectCharEmphasis u) = ENone"
    if "(s, p, u) \<in> set allEntries" "s \<in> {Script, Monospace, Doublestruck}" for s p u
    using a [OF that(1)] that(2) by auto
  have c: "detectCharEmphasis [c] = \<lparr>plain = [c], emphasis = ENone\<rparr>" if "c < 0x80" for c
    using that by (simp add: detect_other ascii_not_styled)
  from a b c detect_unmapped show ?thesis by blast
qed

theorem detect_buckets_witness:
  "(BoldSans, [0x41], [0xD835, 0xDDD4]) \<in> set allEntries \<and>
   detectCharEmphasis [0xD835, 0xDDD4] = \<lparr>plain = [0x41], emphasis = EBold\<rparr> \<and>
   (Script, [0x42], [0x212C]) \<in> set allEntries \<and>
   emphasis (detectCharEmphasis [0x212C]) = ENone \<and>
   detectCharEmphasis [0x41] = \<lparr>plain = [0x41], emphasis = ENone\<rparr>"
  using detect_buckets entry_boldSans_A entry_script_B by fastforce

text \<open>
  Claim C8.  Within the tables of one style, and across the tables of all styles, two
  entries with the same output string have the same plain source; the reverse table maps
  the output of every entry back to that entry's plain character.
\<close>

theorem tables_injective:
  "(\<forall>(s, m) \<in> set charMapsList.
      \<forall>(p, u) \<in> set (concat (styleCaseMaps m)). \<forall>(p', u') \<in> set (concat (styleCaseMaps m)).
        u = u' \<longrightarrow> p = p') \<and>
   (\<forall>(s, p, u) \<in> set allEntries. \<forall>(s', p', u') \<in> set allEntries. u = u' \<longrightarrow> p = p') \<and>
   (\<forall>(s, p, u) \<in> set allEntries. reverseMap u = Some p)"
proof -
  have across: "p = p'"
    if "(s, p, u) \<in> set allEntries" "(s', p', u) \<in> set allEntries" for s p u s' p'
    using entries_unique [OF that] by simp
  have within: "p = p'"
    if "(s, m) \<in> set charMapsList" "(p, u) \<in> set (concat (styleCaseMaps m))"
      "(p', u) \<in> set (concat (styleCaseMaps m))" for s m p u p'
  proof -
    from that have "(s, p, u) \<in> set allEntries" "(s, p', u) \<in> set allEntries"
      by (auto simp: allEntries_iff)
    then show ?thesis by (rule across)
  qed
  have rev: "reverseMap u = Some p" if "(s, p, u) \<in> set allEntries" for s p u
    using that by (rule reverseMap_entry)
  have 1: "\<forall>(s, m) \<in> set charMapsList.
      \<forall>(p, u) \<in> set (concat (styleCaseMaps m)). \<forall>(p', u') \<in> set (concat (styleCaseMaps m)).
        u = u' \<longrightarrow> p = p'"
    using within by (auto simp del: set_concat)
  have 2: "\<forall>(s, p, u) \<in> set allEntries. \<forall>(s', p', u') \<in> set allEntries. u = u' \<longrightarrow> p = p'"
    using across by auto
  have 3: "\<forall>(s, p, u) \<in> set allEntries. reverseMap u = Some p"
    using rev by auto
  from 1 2 3 show ?thesis by (intro conjI)
qed

theorem tables_injective_witness:
  "(Bold, [0x41], [0xD835, 0xDC00]) \<in> set allEntries \<and>
   reverseMap [0xD835, 0xDC00] = Some [0x41]"
proof -
  note inj = tables_injective [THEN conjunct2]
  from bspec [OF inj [THEN conjunct2] entry_bold_A]
  have "reverseMap [0xD835, 0xDC00] = Some [0x41]" by simp
  with entry_bold_A show ?thesis by (simp only:)
qed

section \<open>Where the code departs from its specification\<close>

lemma appendMarker_units: "appendMarker [m] text = concat (map (\<lambda>c. [c, m]) text)"
  by (simp add: appendMarker_def joinEmpty_def splitChars_def comp_def)

lemma toUnicodeStyle_Underline:
  "toUnicodeStyle t Underline = concat (map (\<lambda>c. [c, 0x0332]) t)"
  by (simp add: toUnicodeStyle.simps [of t Underline] COMBINING_UNDERLINE_def
      appendMarker_units)

lemma underline_units_double: "length (toUnicodeStyle t Underline) = 2 * length t"
  unfolding toUnicodeStyle_Underline by (induction t) simp_all

text \<open>
  Claim C3.  The marker is appended after every UTF-16 code unit, because the text is cut
  with \<^verbatim>\<open>split('')\<close>.  On characters of the BMP that is after every character, and
  underlining "Hi" gives H, U+0332, i, U+0332.  A styled letter is a surrogate pair, though:
  the marker lands between its two halves, so bold-underline of "A" and underline of bold A
  are four code points (two of them lone surrogates), not the two the claim states.
\<close>

theorem marker_splits_surrogate_pair:
  "toUnicodeStyle (js ''Hi'') Underline = [0x48, 0x0332, 0x69, 0x0332] \<and>
   toUnicodeStyle (js ''A'') Bold = [0xD835, 0xDC00] \<and>
   arrayFrom (toUnicodeStyle (js ''A'') Bold) = [[0xD835, 0xDC00]] \<and>
   toUnicodeStyle (js ''A'') BoldUnderline = [0xD835, 0x0332, 0xDC00, 0x0332] \<and>
   arrayFrom (toUnicodeStyle (js ''A'') BoldUnderline) = [[0xD835], [0x0332], [0xDC00], [0x0332]] \<and>
   toUnicodeStyle [0xD835, 0xDC00] Underline = [0xD835, 0x0332, 0xDC00, 0x0332] \<and>
   length (arrayFrom [0xD835, 0xDC00]) = 1 \<and>
   length (arrayFrom (toUnicodeStyle [0xD835, 0xDC00] Underline)) = 4"
proof -
  have hi: "toUnicodeStyle (js ''Hi'') Underline = [0x48, 0x0332, 0x69, 0x0332]"
    by (simp add: js_def toUnicodeStyle_Underline)
  have b: "toUnicodeStyle (js ''A'') Bold = [0xD835, 0xDC00]"
    using bold_A by (simp add: js_def)
  have bu: "toUnicodeStyle (js ''A'') BoldUnderline = [0xD835, 0x0332, 0xDC00, 0x0332]"
    using bold_A
    by (simp add: js_def toUnicodeStyle.simps [of _ BoldUnderline] COMBINING_UNDERLINE_def
        appendMarker_units)
  have u: "toUnicodeStyle [0xD835, 0xDC00] Underline = [0xD835, 0x0332, 0xDC00, 0x0332]"
    by (simp add: toUnicodeStyle_Underline)
  show ?thesis
    by (simp add: hi b bu u isHighSurrogate_def isLowSurrogate_def)
qed

lemma readVariant_bold:
  "readVariant (js ''bold'') =
   Own (mkMapping (Style Bold) (Style Bold) (Style BoldItalic) (Style BoldItalic))"
  by (simp add: readVariant_def variantEmphasisMap_def js_def)

lemma readVariant_constructor: "readVariant (js ''constructor'') = Inherited"
  by (simp add: readVariant_def variantEmphasisMap_def objectPrototypeNames_def js_def)

lemma detect_plain_A: "detectCharEmphasis [0x41] = \<lparr>plain = [0x41], emphasis = ENone\<rparr>"
  by (simp add: detect_other ascii_not_styled)

lemma detect_bold_A: "detectCharEmphasis [0xD835, 0xDC00] = \<lparr>plain = [0x41], emphasis = EBold\<rparr>"
  using detect_entry [OF entry_bold_A] by (simp add: emphasisOfStyle_def)

lemmas separate_eval = separateCombining_def separateStep_def COMBINING_UNDERLINE_def
  COMBINING_STRIKETHROUGH_def isHighSurrogate_def isLowSurrogate_def

text \<open>
  Claim C4.  A combining mark that follows a base character is stored under that
  character's index and comes back after the converted character.  A mark at the start of
  the text is stored under index \<open>-1\<close>, which the second loop never reads: it is lost.
\<close>

theorem leading_mark_dropped:
  "readVariant (js ''bold'') \<noteq> Undefined \<and>
   convertPreservingEmphasis [0x41, 0x0332] (js ''bold'') = [0xD835, 0xDC00, 0x0332] \<and>
   convertPreservingEmphasis [0x0332, 0x41] (js ''bold'') = [0xD835, 0xDC00]"
proof -
  have s1: "separateCombining [0x41, 0x0332] = ([[0x41]], [0 \<mapsto> [[0x0332]]])"
    by (simp add: separate_eval)
  have s2: "separateCombining [0x0332, 0x41] = ([[0x41]], [- 1 \<mapsto> [[0x0332]]])"
    by (simp add: separate_eval)
  show ?thesis
    by (simp add: convertPreservingEmphasis_def readVariant_bold s1 s2 convertChar_def
        detect_plain_A mkMapping_def bold_A joinEmpty_def)
qed

text \<open>
  Claim C5.  A variant name that is neither in the table nor a member of
  \<^verbatim>\<open>Object.prototype\<close> reads as undefined and the text is returned as it is.  The name
  \<^verbatim>\<open>constructor\<close> has no entry in the table either, but the read finds the inherited
  member, the guard does not fire, and the conversion runs with an undefined target style:
  a bold A comes back as a plain A.
\<close>

lemma convert_unknown_variant:
  "readVariant targetVariant = Undefined \<Longrightarrow> convertPreservingEmphasis text targetVariant = text"
  by (simp add: convertPreservingEmphasis_def)

theorem inherited_variant_not_noop:
  "map_of variantEmphasisMap (js ''constructor'') = None \<and>
   convertPreservingEmphasis [0xD835, 0xDC00] (js ''constructor'') = [0x41] \<and>
   convertPreservingEmphasis [0xD835, 0xDC00] (js ''constructor'') \<noteq> [0xD835, 0xDC00]"
proof -
  have n: "map_of variantEmphasisMap (js ''constructor'') = None"
    by (simp add: variantEmphasisMap_def js_def)
  have s: "separateCombining [0xD835, 0xDC00] = ([[0xD835, 0xDC00]], Map.empty)"
    by (simp add: separate_eval)
  have "convertPreservingEmphasis [0xD835, 0xDC00] (js ''constructor'') = [0x41]"
    by (simp add: convertPreservingEmphasis_def readVariant_constructor s convertChar_def
        detect_bold_A toUnicodeStyleUndefined_def joinEmpty_def)
  with n show ?thesis by simp
qed

section \<open>Conversion that keeps the emphasis\<close>

lemma reduceTable_keys:
  "distinct letters \<Longrightarrow> map fst (reduceTable f letters) = map (\<lambda>c. [c]) letters"
proof -
  have "map fst (map (\<lambda>(i, c). ([c], f [c] i)) (enumerate n letters)) = map (\<lambda>c. [c]) letters"
    for n by (induction letters arbitrary: n) simp_all
  then show "distinct letters \<Longrightarrow> ?thesis" by (simp add: reduceTable_distinct)
qed

lemma alnum_letters:
  "isAsciiAlnum c \<longleftrightarrow> c \<in> set upperLetters \<or> c \<in> set lowerLetters \<or> c \<in> set digitLetters"
proof -
  have u: "upperLetters = [0x41..<0x5B]" "lowerLetters = [0x61..<0x7B]"
    "digitLetters = [0x30..<0x3A]"
    by (simp_all add: upperLetters_eq lowerLetters_eq digitLetters_eq upt_rec)
  have s: "set upperLetters = {0x41..<0x5B}" "set lowerLetters = {0x61..<0x7B}"
    "set digitLetters = {0x30..<0x3A}"
    by (simp_all only: u set_upt)
  show ?thesis by (auto simp: s isAsciiAlnum_def)
qed

lemma truthy_lookup:
  assumes m: "(s, m) \<in> set charMapsList" and cm: "cm \<in> set (styleCaseMaps m)"
    and k: "k \<in> set (map fst cm)"
  shows "\<exists>u. jsTruthy (map_of cm k) = Some u \<and> (s, k, u) \<in> set allEntries"
proof -
  from k obtain u where u: "map_of cm k = Some u"
    by (cases "map_of cm k") (auto simp: map_of_eq_None_iff)
  then have "(k, u) \<in> set cm" by (rule map_of_SomeD)
  with m cm have e: "(s, k, u) \<in> set allEntries" by (rule entryI)
  from entry_shape [OF e] have "u \<noteq> []" by (auto simp: styledChunk_def)
  with u e show ?thesis by (simp add: jsTruthy_def)
qed

lemma falsy_lookup: "k \<notin> set (map fst cm) \<Longrightarrow> jsTruthy (map_of cm k) = None"
proof -
  assume "k \<notin> set (map fst cm)"
  then have "map_of cm k = None" by (simp add: map_of_eq_None_iff)
  then show ?thesis by (simp add: jsTruthy_def)
qed

lemma full_style_entry:
  assumes s: "(s, m) \<in> set [(Bold, boldMap), (BoldSans, boldSansMap), (SansNormal, sansNormalMap)]"
    and c: "isAsciiAlnum c"
  shows "(s, [c], toUnicodeStyle [c] s) \<in> set allEntries"
proof -
  from s have l: "(s, m) \<in> set charMapsList" and ls: "s \<in> set letterStyles"
    and cm: "charMaps s = Some m"
    by (auto simp: charMapsList_def letterStyles_def charMaps_eval)
  from s have keys:
    "map fst (upper m) = map (\<lambda>c. [c]) upperLetters"
    "map fst (lower m) = map (\<lambda>c. [c]) lowerLetters"
    "\<exists>ds. digits m = Some ds \<and> map fst ds = map (\<lambda>c. [c]) digitLetters"
    by (auto simp: map_defs offsetTable_def reduceTable_keys distinct_letters)
  then obtain ds where ds: "digits m = Some ds" "map fst ds = map (\<lambda>c. [c]) digitLetters"
    by blast
  have in_cm: "upper m \<in> set (styleCaseMaps m)" "lower m \<in> set (styleCaseMaps m)"
    "ds \<in> set (styleCaseMaps m)"
    by (simp_all add: styleCaseMaps_def ds)
  have st: "toUnicodeStyle [c] s = styleChar m [c]"
    by (rule toUnicodeStyle_char [OF ls cm])
  show ?thesis
  proof (cases "c \<in> set upperLetters")
    case True
    then have "[c] \<in> set (map fst (upper m))" by (simp add: keys)
    from truthy_lookup [OF l in_cm(1) this] show ?thesis
      by (auto simp: st styleChar_def)
  next
    case nu: False
    then have fu: "jsTruthy (map_of (upper m) [c]) = None"
      by (intro falsy_lookup) (auto simp: keys)
    show ?thesis
    proof (cases "c \<in> set lowerLetters")
      case True
      then have "[c] \<in> set (map fst (lower m))" by (simp add: keys)
      from truthy_lookup [OF l in_cm(2) this] fu show ?thesis
        by (auto simp: st styleChar_def)
    next
      case False
      then have fl: "jsTruthy (map_of (lower m) [c]) = None"
        by (intro falsy_lookup) (auto simp: keys)
      from nu False c have "c \<in> set digitLetters" by (simp add: alnum_letters)
      then have "[c] \<in> set (map fst ds)" by (simp add: ds)
      from truthy_lookup [OF l in_cm(3) this] fu fl show ?thesis
        by (auto simp: st styleChar_def ds)
    qed
  qed
qed

lemma readVariant_sansNormal:
  "readVariant (js ''sansNormal'') =
   Own (mkMapping (Style SansNormal) (Style BoldSans) (Style ItalicSans) (Style BoldItalicSans))"
  by (simp add: readVariant_def variantEmphasisMap_def js_def)

lemma separate_clean:
  "\<forall>ch \<in> set chs. ch \<noteq> COMBINING_UNDERLINE \<and> ch \<noteq> COMBINING_STRIKETHROUGH \<Longrightarrow>
   fold separateStep chs (acc, st) = (acc @ chs, st)"
  by (induction chs arbitrary: acc) (simp_all add: separateStep_def)

lemma convert_without_marks:
  assumes "list_all closedChunk chunks"
    and "\<forall>ch \<in> set chunks. ch \<noteq> COMBINING_UNDERLINE \<and> ch \<noteq> COMBINING_STRIKETHROUGH"
    and "readVariant v = Own mapping"
  shows "convertPreservingEmphasis (concat chunks) v =
         concat (map (\<lambda>ch. convertChar (Own mapping) Map.empty (0, ch)) chunks)"
proof -
  have sep: "separateCombining (concat chunks) = (chunks, Map.empty)"
    using separate_clean [OF assms(2), of "[]" Map.empty]
    by (simp add: separateCombining_def arrayFrom_concat [OF assms(1)])
  have "map (convertChar (Own mapping) Map.empty) (enumerate n chunks) =
        map (\<lambda>ch. convertChar (Own mapping) Map.empty (0, ch)) chunks" for n
    by (induction chunks arbitrary: n) (simp_all add: convertChar_def)
  then show ?thesis
    by (simp add: convertPreservingEmphasis_def assms(3) sep joinEmpty_def)
qed

lemma ascii_closed: "c < 0x80 \<Longrightarrow> closedChunk [c]"
  by (simp add: closedChunk_def isHighSurrogate_def)

lemma ascii_not_mark:
  "c < 0x80 \<Longrightarrow> [c] \<noteq> COMBINING_UNDERLINE \<and> [c] \<noteq> COMBINING_STRIKETHROUGH"
  by (auto simp: COMBINING_UNDERLINE_def COMBINING_STRIKETHROUGH_def)

lemma styled_not_mark:
  "styledChunk u \<Longrightarrow> u \<noteq> COMBINING_UNDERLINE \<and> u \<noteq> COMBINING_STRIKETHROUGH"
  by (auto simp: COMBINING_UNDERLINE_def COMBINING_STRIKETHROUGH_def styledChunk_def)

lemma sans_bold_char:
  assumes c: "isAsciiAlnum c"
  defines "chunk \<equiv> toUnicodeStyle [c] Bold" and "out \<equiv> toUnicodeStyle [c] BoldSans"
  shows "closedChunk chunk \<and> chunk \<noteq> COMBINING_UNDERLINE \<and> chunk \<noteq> COMBINING_STRIKETHROUGH \<and>
         convertChar (Own sansMapping) Map.empty (0, chunk) = out \<and> closedChunk out \<and>
         detectCharEmphasis out = \<lparr>plain = [c], emphasis = EBold\<rparr> \<and>
         (BoldSans, [c], out) \<in> set allEntries"
proof -
  have e1: "(Bold, [c], chunk) \<in> set allEntries"
    unfolding chunk_def by (rule full_style_entry [OF _ c]) simp
  have e2: "(BoldSans, [c], out) \<in> set allEntries"
    unfolding out_def by (rule full_style_entry [OF _ c]) simp
  from entry_shape [OF e1] have s1: "styledChunk chunk" by simp
  from entry_shape [OF e2] have s2: "styledChunk out" by simp
  have "convertChar (Own sansMapping) Map.empty (0, chunk) = out"
    by (simp add: convertChar_def detect_entry [OF e1] emphasisOfStyle_def sansMapping_def
        mkMapping_def out_def)
  with s1 s2 e2 detect_entry [OF e2] show ?thesis
    by (simp add: styledChunk_closed styled_not_mark emphasisOfStyle_def)
qed

lemma sans_plain_char:
  assumes c: "c < 0x80"
  defines "out \<equiv> toUnicodeStyle [c] SansNormal"
  shows "closedChunk [c] \<and> [c] \<noteq> COMBINING_UNDERLINE \<and> [c] \<noteq> COMBINING_STRIKETHROUGH \<and>
         convertChar (Own sansMapping) Map.empty (0, [c]) = out \<and> closedChunk out \<and>
         detectCharEmphasis out = \<lparr>plain = [c], emphasis = ENone\<rparr> \<and>
         (isAsciiAlnum c \<longrightarrow> (SansNormal, [c], out) \<in> set allEntries)"
proof -
  have d: "detectCharEmphasis [c] = \<lparr>plain = [c], emphasis = ENone\<rparr>"
    using c by (simp add: detect_other ascii_not_styled)
  have conv: "convertChar (Own sansMapping) Map.empty (0, [c]) = out"
    by (simp add: convertChar_def d sansMapping_def mkMapping_def out_def)
  have l: "(SansNormal, sansNormalMap) \<in> set charMapsList" by (simp add: charMapsList_def)
  have st: "out = styleChar sansNormalMap [c]"
    unfolding out_def by (rule toUnicodeStyle_char) (simp_all add: letterStyles_def charMaps_eval)
  have shape: "closedChunk out \<and> detectCharEmphasis out = \<lparr>plain = [c], emphasis = ENone\<rparr>"
    using styleChar_cases [OF l, of "[c]"]
  proof
    assume "styleChar sansNormalMap [c] = [c]"
    with d c show ?thesis by (simp add: st ascii_closed)
  next
    assume "(SansNormal, [c], styleChar sansNormalMap [c]) \<in> set allEntries"
    then have e: "(SansNormal, [c], out) \<in> set allEntries" by (simp add: st)
    from entry_shape [OF e] detect_entry [OF e] show ?thesis
      by (simp add: styledChunk_closed emphasisOfStyle_def)
  qed
  have "(SansNormal, [c], out) \<in> set allEntries" if "isAsciiAlnum c"
    unfolding out_def by (rule full_style_entry [OF _ that]) simp
  with c conv shape show ?thesis by (simp add: ascii_closed ascii_not_mark)
qed

text \<open>
  Claim C2.  Take any text made of bold-styled ASCII letters and digits and of plain ASCII
  characters, in any order.  Converting it to the sansNormal variant turns each bold
  character into the boldSans form of its letter, which is detected as bold, and each plain
  character into its sansNormal form, which is detected as none.
\<close>

theorem convert_sans_keeps_emphasis:
  assumes ok: "list_all (\<lambda>(b, c). if b then isAsciiAlnum c else c < 0x80) xs"
  shows "convertPreservingEmphasis (emphasisedText xs) (js ''sansNormal'') =
           concat (map (\<lambda>(b, c). toUnicodeStyle [c] (if b then BoldSans else SansNormal)) xs) \<and>
         map detectCharEmphasis
           (arrayFrom (convertPreservingEmphasis (emphasisedText xs) (js ''sansNormal''))) =
           map (\<lambda>(b, c). \<lparr>plain = [c], emphasis = (if b then EBold else ENone)\<rparr>) xs \<and>
         list_all (\<lambda>(b, c). isAsciiAlnum c \<longrightarrow>
             ((if b then BoldSans else SansNormal), [c],
              toUnicodeStyle [c] (if b then BoldSans else SansNormal)) \<in> set allEntries) xs"
proof -
  let ?chunk = "\<lambda>(b, c). if b then toUnicodeStyle [c] Bold else [c]"
  let ?out = "\<lambda>(b, c). toUnicodeStyle [c] (if b then BoldSans else SansNormal)"
  have each: "closedChunk (?chunk x) \<and> ?chunk x \<noteq> COMBINING_UNDERLINE \<and>
      ?chunk x \<noteq> COMBINING_STRIKETHROUGH \<and>
      convertChar (Own sansMapping) Map.empty (0, ?chunk x) = ?out x \<and> closedChunk (?out x) \<and>
      detectCharEmphasis (?out x) =
        (case x of (b, c) \<Rightarrow> \<lparr>plain = [c], emphasis = (if b then EBold else ENone)\<rparr>) \<and>
      (case x of (b, c) \<Rightarrow> isAsciiAlnum c \<longrightarrow>
         ((if b then BoldSans else SansNormal), [c], ?out x) \<in> set allEntries)"
    if "x \<in> set xs" for x
  proof -
    obtain b c where x: "x = (b, c)" by (cases x)
    from ok that x have h: "if b then isAsciiAlnum c else c < 0x80"
      by (auto simp: list_all_iff)
    show ?thesis
    proof (cases b)
      case True
      with h sans_bold_char [of c] show ?thesis by (simp add: x)
    next
      case False
      with h sans_plain_char [of c] show ?thesis by (simp add: x)
    qed
  qed
  have conv: "convertPreservingEmphasis (emphasisedText xs) (js ''sansNormal'') =
      concat (map ?out xs)"
  proof -
    have "convertPreservingEmphasis (concat (map ?chunk xs)) (js ''sansNormal'') =
        concat (map (\<lambda>ch. convertChar (Own sansMapping) Map.empty (0, ch)) (map ?chunk xs))"
      using each
      by (intro convert_without_marks)
        (auto simp: list_all_iff readVariant_sansNormal sansMapping_def)
    also have "map (\<lambda>ch. convertChar (Own sansMapping) Map.empty (0, ch)) (map ?chunk xs) =
        map ?out xs"
      using each by simp
    finally show ?thesis by (simp add: emphasisedText_def)
  qed
  have cps: "arrayFrom (concat (map ?out xs)) = map ?out xs"
    using each by (intro arrayFrom_concat) (simp add: list_all_iff)
  have det: "map detectCharEmphasis (map ?out xs) =
      map (\<lambda>(b, c). \<lparr>plain = [c], emphasis = (if b then EBold else ENone)\<rparr>) xs"
    using each by auto
  have ent: "list_all (\<lambda>(b, c). isAsciiAlnum c \<longrightarrow>
      ((if b then BoldSans else SansNormal), [c],
       toUnicodeStyle [c] (if b then BoldSans else SansNormal)) \<in> set allEntries) xs"
    using each by (auto simp: list_all_iff)
  from conv cps det ent show ?thesis by (simp only:)
qed

theorem convert_sans_keeps_emphasis_witness:
  "list_all (\<lambda>(b, c). if b then isAsciiAlnum c else c < 0x80) [(True, 0x41), (False, 0x62)] \<and>
   emphasisedText [(True, 0x41), (False, 0x62)] = [0xD835, 0xDC00, 0x62] \<and>
   map detectCharEmphasis
     (arrayFrom (convertPreservingEmphasis [0xD835, 0xDC00, 0x62] (js ''sansNormal''))) =
     [\<lparr>plain = [0x41], emphasis = EBold\<rparr>, \<lparr>plain = [0x62], emphasis = ENone\<rparr>]"
proof -
  have h: "list_all (\<lambda>(b, c). if b then isAsciiAlnum c else c < 0x80) [(True, 0x41), (False, 0x62)]"
    by (simp add: isAsciiAlnum_def)
  have t: "emphasisedText [(True, 0x41), (False, 0x62)] = [0xD835, 0xDC00, 0x62]"
    by (simp add: emphasisedText_def bold_A)
  note d = convert_sans_keeps_emphasis [OF h, THEN conjunct2, THEN conjunct1]
  from d have "map detectCharEmphasis
     (arrayFrom (convertPreservingEmphasis [0xD835, 0xDC00, 0x62] (js ''sansNormal''))) =
     [\<lparr>plain = [0x41], emphasis = EBold\<rparr>, \<lparr>plain = [0x62], emphasis = ENone\<rparr>]"
    unfolding t by simp
  with h t show ?thesis by (simp only:)
qed

section \<open>List formatting\<close>

lemma dropWhile_all: "dropWhile P xs = [] \<longleftrightarrow> list_all P xs"
  by (simp add: list_all_iff)

lemma all_dropWhile: "(\<forall>x \<in> set (dropWhile P xs). P x) \<longleftrightarrow> (\<forall>x \<in> set xs. P x)"
  by (induction xs) auto

lemma trim_empty_iff: "trim line = [] \<longleftrightarrow> blankLine line"
  by (simp add: trim_def blankLine_def list_all_iff all_dropWhile)

lemma nonBlankLines_kept: "map trim (nonBlankLines t) = keptLines t"
  by (simp add: nonBlankLines_def keptLines_def trim_empty_iff)

lemma prefixedList_kept:
  "prefixedList glyph t = joinWith [0x0A] (map (\<lambda>l. glyph @ [0x20] @ l) (keptLines t))"
  by (simp add: prefixedList_def nonBlankLines_kept [symmetric] comp_def)

lemma map_enumerate_nth:
  "map (\<lambda>(i, x). f i x) (enumerate n xs) = map (\<lambda>k. f (n + k) (xs ! k)) [0..<length xs]"
  by (rule nth_equalityI) (simp_all add: nth_enumerate_eq)

lemma numbered_kept:
  "toNumberedList t =
   joinWith [0x0A]
     (map (\<lambda>k. decimal (k + 1) @ [0x2E, 0x20] @ keptLines t ! k) [0..<length (keptLines t)])"
proof -
  have "map (\<lambda>(i, line). decimal (i + 1) @ [0x2E, 0x20] @ trim line)
          (enumerate 0 (nonBlankLines t)) =
        map (\<lambda>k. decimal (k + 1) @ [0x2E, 0x20] @ trim (nonBlankLines t ! k))
          [0..<length (nonBlankLines t)]"
    using map_enumerate_nth [of "\<lambda>i line. decimal (i + 1) @ [0x2E, 0x20] @ trim line" 0]
    by simp
  also have "\<dots> = map (\<lambda>k. decimal (k + 1) @ [0x2E, 0x20] @ keptLines t ! k)
          [0..<length (keptLines t)]"
    by (simp add: nonBlankLines_kept [symmetric])
  finally show ?thesis by (simp add: toNumberedList_def)
qed

lemma splitOn_nonempty: "splitOn sep s \<noteq> []"
  by (induction s) (auto split: list.splits)

lemma splitOn_no_sep: "l \<in> set (splitOn sep s) \<Longrightarrow> sep \<notin> set l"
  by (induction s arbitrary: l) (auto split: list.splits if_splits)

lemma splitOn_append_sep:
  "sep \<notin> set x \<Longrightarrow> splitOn sep (x @ sep # rest) = x # splitOn sep rest"
  by (induction x) (auto split: list.splits)

lemma splitOn_plain: "sep \<notin> set x \<Longrightarrow> splitOn sep x = [x]"
  by (induction x) (auto split: list.splits)

lemma splitOn_joinWith:
  "ls \<noteq> [] \<Longrightarrow> \<forall>l \<in> set ls. sep \<notin> set l \<Longrightarrow> splitOn sep (joinWith [sep] ls) = ls"
  by (induction "[sep]" ls rule: joinWith.induct)
    (simp_all add: splitOn_plain splitOn_append_sep)

lemma set_trim: "set (trim l) \<subseteq> set l"
proof -
  have "set (dropWhile P xs) \<subseteq> set xs" for P and xs :: jsstring
    by (auto dest: set_dropWhileD)
  then show ?thesis unfolding trim_def by (metis set_rev subset_trans)
qed

lemma keptLines_shape:
  assumes "l \<in> set (keptLines t)"
  shows "l \<noteq> [] \<and> \<not> isWhiteSpace (hd l) \<and> \<not> isWhiteSpace (last l) \<and> 0x0A \<notin> set l"
proof -
  from assms obtain line where line: "line \<in> set (splitOn 0x0A t)" "\<not> blankLine line"
    and l: "l = trim line" by (auto simp: keptLines_def)
  from line(2) have ne: "l \<noteq> []" by (simp add: l trim_empty_iff)
  let ?d = "dropWhile isWhiteSpace (rev (dropWhile isWhiteSpace line))"
  from ne have d: "?d \<noteq> []" by (simp add: l trim_def)
  then have "\<not> isWhiteSpace (hd ?d)" by (rule hd_dropWhile)
  with d have la: "\<not> isWhiteSpace (last l)" by (simp add: l trim_def last_rev)
  have nl: "0x0A \<notin> set l" using splitOn_no_sep [OF line(1)] set_trim [of line] by (auto simp: l)
  have "\<not> isWhiteSpace (hd l)"
  proof -
    let ?e = "dropWhile isWhiteSpace line"
    have e: "?e \<noteq> []" using line(2) by (simp add: blankLine_def list_all_iff)
    then have he: "\<not> isWhiteSpace (hd ?e)" by (rule hd_dropWhile)
    have "hd (rev ?d) = hd ?e"
    proof -
      obtain x xs where x: "?e = x # xs" using e by (cases ?e) auto
      with he have nx: "\<not> isWhiteSpace x" by simp
      have "\<exists>ys. ?d = ys @ [x]"
      proof -
        have "rev ?e = rev xs @ [x]" by (simp add: x)
        then have "?d = dropWhile isWhiteSpace (rev xs @ [x])" by simp
        also have "\<dots> = dropWhile isWhiteSpace (rev xs) @ [x]"
          using nx by (simp add: dropWhile_append3)
        finally show ?thesis by blast
      qed
      then obtain ys where "?d = ys @ [x]" ..
      then show ?thesis by (simp add: x)
    qed
    with he show ?thesis by (simp add: l trim_def)
  qed
  with ne la nl show ?thesis by simp
qed

lemma decimal_no_newline: "0x0A \<notin> set (decimal n)"
  by (induction n rule: decimal.induct) (subst decimal.simps, auto simp: digitChar_def)

lemma prefixedList_lines:
  assumes "keptLines t \<noteq> []" and "0x0A \<notin> set glyph"
  shows "splitOn 0x0A (prefixedList glyph t) = map (\<lambda>l. glyph @ [0x20] @ l) (keptLines t)"
  unfolding prefixedList_kept
  using assms keptLines_shape [of _ t] by (intro splitOn_joinWith) auto

lemma numbered_lines:
  assumes "keptLines t \<noteq> []"
  shows "splitOn 0x0A (toNumberedList t) =
         map (\<lambda>k. decimal (k + 1) @ [0x2E, 0x20] @ keptLines t ! k) [0..<length (keptLines t)]"
  unfolding numbered_kept
proof (rule splitOn_joinWith)
  show "map (\<lambda>k. decimal (k + 1) @ [0x2E, 0x20] @ keptLines t ! k) [0..<length (keptLines t)] \<noteq> []"
    using assms by simp
  show "\<forall>l \<in> set (map (\<lambda>k. decimal (k + 1) @ [0x2E, 0x20] @ keptLines t ! k)
      [0..<length (keptLines t)]). 0x0A \<notin> set l"
  proof -
    have "0x0A \<notin> set (decimal (k + 1) @ [0x2E, 0x20] @ keptLines t ! k)"
      if "k < length (keptLines t)" for k
      using keptLines_shape [OF nth_mem [OF that]] decimal_no_newline [of "k + 1"] by simp
    then show ?thesis by auto
  qed
qed

text \<open>
  Claim C9.  Each formatter cuts the text at newlines, drops the lines that are blank
  (nothing but white space), trims the others and puts its marker and a space before each;
  the numbered list counts the remaining lines from 1.  The two examples of the
  specification, "a\n\nb" and "x\ny\nz", come out as stated.
\<close>

theorem list_formatters:
  "toBulletList t = joinWith [0x0A] (map (\<lambda>l. [0x2022, 0x20] @ l) (keptLines t)) \<and>
   toCheckboxList t = joinWith [0x0A] (map (\<lambda>l. [0x2610, 0x20] @ l) (keptLines t)) \<and>
   toAscendingList t = joinWith [0x0A] (map (\<lambda>l. [0x2197, 0x20] @ l) (keptLines t)) \<and>
   toDescendingList t = joinWith [0x0A] (map (\<lambda>l. [0x2198, 0x20] @ l) (keptLines t)) \<and>
   toNumberedList t =
     joinWith [0x0A]
       (map (\<lambda>k. decimal (k + 1) @ js ''. '' @ keptLines t ! k) [0..<length (keptLines t)]) \<and>
   toBulletList (js ''a'' @ [0x0A, 0x0A] @ js ''b'') =
     [0x2022] @ js '' a'' @ [0x0A] @ [0x2022] @ js '' b'' \<and>
   toNumberedList (js ''x'' @ [0x0A] @ js ''y'' @ [0x0A] @ js ''z'') =
     js ''1. x'' @ [0x0A] @ js ''2. y'' @ [0x0A] @ js ''3. z''"
proof -
  have ex1: "toBulletList (js ''a'' @ [0x0A, 0x0A] @ js ''b'') =
      [0x2022] @ js '' a'' @ [0x0A] @ [0x2022] @ js '' b''"
    by (simp add: toBulletList_def prefixedList_def nonBlankLines_def trim_def
        isWhiteSpace_def js_def)
  have ex2: "toNumberedList (js ''x'' @ [0x0A] @ js ''y'' @ [0x0A] @ js ''z'') =
      js ''1. x'' @ [0x0A] @ js ''2. y'' @ [0x0A] @ js ''3. z''"
    by (simp add: toNumberedList_def nonBlankLines_def trim_def isWhiteSpace_def js_def
        decimal.simps digitChar_def)
  have num: "toNumberedList t =
     joinWith [0x0A]
       (map (\<lambda>k. decimal (k + 1) @ js ''. '' @ keptLines t ! k) [0..<length (keptLines t)])"
    using numbered_kept [of t] by (simp add: js_def)
  show ?thesis
    unfolding toBulletList_def toCheckboxList_def toAscendingList_def toDescendingList_def
    using ex1 ex2 num
    by (simp add: prefixedList_kept toBulletList_def)
qed

end
